theory Spec2Isabelle
  imports Main "HOL-Library.AList" "HOL-Library.Char_ord" "HOL-Library.List_Lexorder"
begin

section \<open>avbroot: boot image patches and the OTA planner\<close>

text \<open>
  A shallow embedding of \<^verbatim>\<open>src/avbroot/boot.py\<close> and \<^verbatim>\<open>src/avbroot/main.py\<close>.
  Python \<^verbatim>\<open>bytes\<close> and \<^verbatim>\<open>str\<close> values are \<open>string\<close>s (lists of 8-bit characters),
  Python's unbounded integers are \<open>int\<close> (or \<open>nat\<close> where the source only admits
  non-negative values), every \<^verbatim>\<open>raise\<close> is an \<open>Inl\<close> result.
\<close>

subsection \<open>Errors\<close>

text \<open>
  One constructor per \<^verbatim>\<open>raise\<close> of the two modules, and per exception of the Python
  runtime that the modelled code can run into. The formatted messages are replaced by
  the data they are formatted from.
\<close>

datatype issue =
    FieldAdded string
  | FieldRemoved string
  | FieldChanged string string string
  | SectionAdded string
  | SectionRemoved string
  | RamdisksDecreased nat nat
  | KmiChanged "string option" "string option"

datatype error =
    UnsupportedMagiskVersion int
  | PreinitDeviceRequired int
  | UnexpectedRamdiskCount nat
  | AttributeError
  | UnicodeEncodeError
  | KeyError string
  | OtacertsNotFound
  | IncompatibleImage "issue list"
  | KeyPresenceMismatch bool bool
  | MultipleHashDescriptors
  | NoHashDescriptor
  | AvbError
  | CycleError
  | StructError
  | MissingFiles "string list"
  | NotStored string
  | TypeError
  | PatchError string
  | ValueError
  | InvalidRamdisk

subsection \<open>Magisk version gate (boot.py, MagiskRootPatch)\<close>

text \<open>
  Modelled from the spec: \<^verbatim>\<open>util.Range\<close> is not among the source files. The
  comment above \<^verbatim>\<open>VERS_SUPPORTED\<close> and the spec (section 4.3) both call the ranges
  half-open intervals, so \<^verbatim>\<open>v in util.Range(a, b)\<close> is \<open>a \<le> v \<and> v < b\<close>; a range is
  the pair of its bounds and \<^verbatim>\<open>.end\<close> is the second component.
\<close>

type_synonym range = "int \<times> int"

definition in_range :: "int \<Rightarrow> range \<Rightarrow> bool" where
  "in_range v r = (fst r \<le> v \<and> v < snd r)"

definition range_end :: "range \<Rightarrow> int" where
  "range_end r = snd r"

definition VERS_SUPPORTED :: "range list" where
  "VERS_SUPPORTED = [(25102, 25207), (25211, 26200), (26201, 27000)]"

definition VER_PREINIT_DEVICE :: range where
  "VER_PREINIT_DEVICE = (25211, range_end (last VERS_SUPPORTED))"

definition VER_RANDOM_SEED :: range where
  "VER_RANDOM_SEED = (25211, range_end (last VERS_SUPPORTED))"

text \<open>
  The object built by \<^verbatim>\<open>MagiskRootPatch.__init__\<close>. The version is what
  \<^verbatim>\<open>_get_version\<close> read from the bundle's \<^verbatim>\<open>MAGISK_VER_CODE=\<close> line; the random seed
  defaults to the hard-coded constant.
\<close>

record magisk_root_patch =
  version :: int
  preinit_device :: "string option"
  random_seed :: nat

definition DEFAULT_RANDOM_SEED :: nat where
  "DEFAULT_RANDOM_SEED = 0xfedcba9876543210"

definition MagiskRootPatch_init :: "int \<Rightarrow> string option \<Rightarrow> nat option \<Rightarrow> magisk_root_patch" where
  "MagiskRootPatch_init ver dev seed =
     \<lparr> version = ver,
       preinit_device = dev,
       random_seed = (case seed of None \<Rightarrow> DEFAULT_RANDOM_SEED | Some s \<Rightarrow> s) \<rparr>"

definition validate :: "magisk_root_patch \<Rightarrow> error + unit" where
  "validate self =
     (if \<not> list_ex (\<lambda>s. in_range (version self) s) VERS_SUPPORTED
      then Inl (UnsupportedMagiskVersion (version self))
      else if preinit_device self = None \<and> in_range (version self) VER_PREINIT_DEVICE
      then Inl (PreinitDeviceRequired (version self))
      else Inr ())"

subsection \<open>Magisk config blob (boot.py, lines 171-185)\<close>

text \<open>Python's \<^verbatim>\<open>'%x' % n\<close> for a non-negative integer: lower-case hexadecimal digits.\<close>

definition hex_digit :: "nat \<Rightarrow> char" where
  "hex_digit d = ''0123456789abcdef'' ! d"

fun hex_of_nat :: "nat \<Rightarrow> string" where
  "hex_of_nat n = (if n < 16 then [hex_digit n] else hex_of_nat (n div 16) @ [hex_digit (n mod 16)])"

declare hex_of_nat.simps [simp del]

text \<open>
  \<^verbatim>\<open>str.encode('ascii')\<close>: the attribute access fails on \<^verbatim>\<open>None\<close>, the encoding fails
  on a character outside ASCII.
\<close>

definition encode_ascii :: "string option \<Rightarrow> error + string" where
  "encode_ascii s =
     (case s of
        None \<Rightarrow> Inl AttributeError
      | Some d \<Rightarrow> if list_ex (\<lambda>c. 128 \<le> (of_char c :: nat)) d then Inl UnicodeEncodeError else Inr d)"

definition NL :: string where
  "NL = [CHR 0x0A]"

definition magisk_config :: "magisk_root_patch \<Rightarrow> string \<Rightarrow> error + string" where
  "magisk_config self sha1_hexdigest =
     (let c0 = ''KEEPVERITY=true'' @ NL @ ''KEEPFORCEENCRYPT=true'' @ NL
               @ ''PATCHVBMETAFLAG=false'' @ NL @ ''RECOVERYMODE=false'' @ NL
      in case (if in_range (version self) VER_PREINIT_DEVICE
               then (case encode_ascii (preinit_device self) of
                       Inl e \<Rightarrow> Inl e
                     | Inr d \<Rightarrow> Inr (c0 @ ''PREINITDEVICE='' @ d @ NL))
               else Inr c0) of
           Inl e \<Rightarrow> Inl e
         | Inr c1 \<Rightarrow>
             (let c2 = c1 @ ''SHA1='' @ sha1_hexdigest @ NL
              in Inr (if in_range (version self) VER_RANDOM_SEED
                      then c2 @ ''RANDOMSEED=0x'' @ hex_of_nat (random_seed self) @ NL
                      else c2)))"

subsection \<open>Ramdisk entries and the object store\<close>

text \<open>
  Modelled from the spec: \<^verbatim>\<open>cpio.CpioEntryNew\<close> is not among the source files. The
  data model of the spec (section 3) gives a ramdisk entry a name, permission bits, a
  kind and content bytes; \<^verbatim>\<open>new_directory\<close> builds a directory with empty content and
  \<^verbatim>\<open>new_file\<close> a regular file with the given data.
\<close>

datatype entry_kind = RegularFile | Directory | OtherKind

record cpio_entry =
  name :: string
  perms :: nat
  kind :: entry_kind
  content :: string

definition new_directory :: "string \<Rightarrow> nat \<Rightarrow> cpio_entry" where
  "new_directory path p = \<lparr> name = path, perms = p, kind = Directory, content = [] \<rparr>"

definition new_file :: "string \<Rightarrow> nat \<Rightarrow> string \<Rightarrow> cpio_entry" where
  "new_file path p d = \<lparr> name = path, perms = p, kind = RegularFile, content = d \<rparr>"

text \<open>
  Entries are Python objects: \<^verbatim>\<open>entries.copy()\<close> copies the list, not the objects, and
  \<^verbatim>\<open>entry.name = ...\<close> changes the object wherever it is referenced. The store holds the
  objects, an address is an index into it, and an entry list is a list of addresses.
\<close>

type_synonym addr = nat
type_synonym store = "cpio_entry list"

definition append_new :: "store \<times> addr list \<Rightarrow> cpio_entry \<Rightarrow> store \<times> addr list" where
  "append_new s e = (fst s @ [e], snd s @ [length (fst s)])"

definition deref :: "store \<Rightarrow> addr list \<Rightarrow> cpio_entry list" where
  "deref h as = map (\<lambda>a. h ! a) as"

subsection \<open>The Magisk backup directory (boot.py, \_apply\_magisk\_backup)\<close>

text \<open>
  A dict comprehension \<^verbatim>\<open>{e.name: e for e in entries}\<close>: a later entry of the same
  name replaces the value and keeps the key's place, which is \<open>AList.update\<close>.
\<close>

definition by_name :: "store \<Rightarrow> addr list \<Rightarrow> (string \<times> addr) list" where
  "by_name h es = fold (\<lambda>a d. AList.update (name (h ! a)) a d) es []"

definition dict_keys :: "('k \<times> 'v) list \<Rightarrow> 'k list" where
  "dict_keys d = map fst d"

text \<open>
  The loop \<^verbatim>\<open>for name in deleted | changed\<close>. A lookup \<^verbatim>\<open>old_by_name[name]\<close> of a
  missing key would raise \<^verbatim>\<open>KeyError\<close>.
\<close>

fun backup_loop ::
  "(string \<times> addr) list \<Rightarrow> string list \<Rightarrow> store \<times> addr list \<Rightarrow> error + store \<times> addr list" where
  "backup_loop old_by_name [] s = Inr s"
| "backup_loop old_by_name (n # ns) s =
     (case map_of old_by_name n of
        None \<Rightarrow> Inl (KeyError n)
      | Some entry \<Rightarrow>
          backup_loop old_by_name ns
            ((fst s)[entry := (fst s ! entry)\<lparr> name := ''.backup/'' @ name (fst s ! entry) \<rparr>],
             snd s @ [entry]))"

definition NUL :: string where
  "NUL = [CHR 0x00]"

definition rmlist_data :: "string list \<Rightarrow> string" where
  "rmlist_data added = concat (map (\<lambda>n. n @ NUL) (sort added))"

text \<open>
  Python does not fix the order in which a set is iterated. The sets \<^verbatim>\<open>added\<close>,
  \<^verbatim>\<open>deleted\<close> and \<^verbatim>\<open>changed\<close> are lists without repetition here, in the order of the
  dict they are taken from, and \<^verbatim>\<open>deleted | changed\<close> is iterated in that order.
\<close>

definition added_names :: "store \<Rightarrow> addr list \<Rightarrow> addr list \<Rightarrow> string list" where
  "added_names h old_entries new_entries =
     filter (\<lambda>n. n \<notin> set (dict_keys (by_name h old_entries))) (dict_keys (by_name h new_entries))"

definition deleted_names :: "store \<Rightarrow> addr list \<Rightarrow> addr list \<Rightarrow> string list" where
  "deleted_names h old_entries new_entries =
     filter (\<lambda>n. n \<notin> set (dict_keys (by_name h new_entries))) (dict_keys (by_name h old_entries))"

definition changed_names :: "store \<Rightarrow> addr list \<Rightarrow> addr list \<Rightarrow> string list" where
  "changed_names h old_entries new_entries =
     filter (\<lambda>n. case (map_of (by_name h old_entries) n, map_of (by_name h new_entries) n) of
                   (Some o_e, Some n_e) \<Rightarrow> content (h ! o_e) \<noteq> content (h ! n_e)
                 | _ \<Rightarrow> False)
       (dict_keys (by_name h old_entries))"

definition apply_magisk_backup :: "store \<Rightarrow> addr list \<Rightarrow> addr list \<Rightarrow> error + store \<times> addr list" where
  "apply_magisk_backup h old_entries new_entries =
     (let old_by_name = by_name h old_entries;
          added = added_names h old_entries new_entries;
          deleted = deleted_names h old_entries new_entries;
          changed = changed_names h old_entries new_entries;
          s1 = append_new (h, new_entries) (new_directory ''.backup'' 0)
      in case backup_loop old_by_name (deleted @ changed) s1 of
           Inl e \<Rightarrow> Inl e
         | Inr s2 \<Rightarrow> Inr (append_new s2 (new_file ''.backup/.rmlist'' 0 (rmlist_data added))))"

text \<open>The names of the entries of a list, as the store has them.\<close>

definition names :: "store \<Rightarrow> addr list \<Rightarrow> string set" where
  "names h es = (\<lambda>a. name (h ! a)) ` set es"

subsection \<open>Boot images\<close>

text \<open>
  Modelled from the spec: the \<^verbatim>\<open>formats\<close> package (boot image, cpio and compression
  codecs) is not among the source files. A boot image carries the header dict that
  \<^verbatim>\<open>to_dict()\<close> returns (field names with the printed values), the five optional
  sections and the ramdisks (spec, section 3). A ramdisk blob is represented by what
  \<^verbatim>\<open>_load_ramdisk\<close> does with it (spec, section 4.1): the exception it raises (unknown
  magic, truncated stream), or the entry list and the compression format it returns.
  \<^verbatim>\<open>_save_ramdisk\<close> gives the blob that loads to the entries and the format it is given,
  and fails with \<^verbatim>\<open>InvalidRamdisk\<close> when two entries have the same name.
\<close>

type_synonym format = string

definition LZ4_LEGACY :: format where
  "LZ4_LEGACY = ''LZ4_LEGACY''"

type_synonym ramdisk = "error + cpio_entry list \<times> format"

definition load_ramdisk :: "ramdisk \<Rightarrow> error + cpio_entry list \<times> format" where
  "load_ramdisk r = r"

definition save_ramdisk :: "cpio_entry list \<Rightarrow> format \<Rightarrow> error + ramdisk" where
  "save_ramdisk entries fmt =
     (if distinct (map name entries) then Inr (Inr (entries, fmt)) else Inl InvalidRamdisk)"

record boot_image =
  header :: "(string \<times> string) list"
  kernel :: "string option"
  second :: "string option"
  recovery_dtbo :: "string option"
  dtb :: "string option"
  bootconfig :: "string option"
  ramdisks :: "ramdisk list"

subsection \<open>Magisk injection (boot.py, MagiskRootPatch.\_patch)\<close>

text \<open>
  The Magisk bundle is a zip opened for reading: a partial map from entry names to
  their bytes. \<^verbatim>\<open>zip.open(name)\<close> of a missing name raises \<^verbatim>\<open>KeyError\<close>.
\<close>

type_synonym zip_archive = "string \<rightharpoonup> string"

definition zip_open :: "zip_archive \<Rightarrow> string \<Rightarrow> error + string" where
  "zip_open z n = (case z n of None \<Rightarrow> Inl (KeyError n) | Some d \<Rightarrow> Inr d)"

text \<open>
  The loop over \<^verbatim>\<open>xz_files.items()\<close>; \<open>xz\<close> is the LZMA compressor of the Python
  library (preset 9, CRC32 check), a parameter of the model.
\<close>

fun add_xz_files ::
  "(string \<Rightarrow> string) \<Rightarrow> zip_archive \<Rightarrow> (string \<times> string) list \<Rightarrow> store \<times> addr list
     \<Rightarrow> error + store \<times> addr list" where
  "add_xz_files xz z [] s = Inr s"
| "add_xz_files xz z ((source, target) # fs) s =
     (case zip_open z source of
        Inl e \<Rightarrow> Inl e
      | Inr d \<Rightarrow>
          add_xz_files xz z fs (append_new s (new_file (''overlay.d/sbin/'' @ target) 420 (xz d))))"

definition xz_files :: "zip_archive \<Rightarrow> (string \<times> string) list" where
  "xz_files z =
     [(''lib/armeabi-v7a/libmagisk32.so'', ''magisk32.xz''),
      (''lib/arm64-v8a/libmagisk64.so'', ''magisk64.xz'')]
     @ (if z ''assets/stub.apk'' \<noteq> None then [(''assets/stub.apk'', ''stub.xz'')] else [])"

text \<open>
  \<open>sha1_hexdigest\<close> is the SHA-1 of the image file, as \<^verbatim>\<open>hasher.hexdigest()\<close> prints it.
  The permission bits \<^verbatim>\<open>0o750\<close> and \<^verbatim>\<open>0o644\<close> are 488 and 420.
\<close>

definition MagiskRootPatch_patch ::
  "magisk_root_patch \<Rightarrow> string \<Rightarrow> (string \<Rightarrow> string) \<Rightarrow> zip_archive \<Rightarrow> boot_image
     \<Rightarrow> error + boot_image" where
  "MagiskRootPatch_patch self sha1_hexdigest xz z img =
     (if length (ramdisks img) > 1 then Inl (UnexpectedRamdiskCount (length (ramdisks img)))
      else
        case (if ramdisks img \<noteq> [] then load_ramdisk (ramdisks img ! 0) else Inr ([], LZ4_LEGACY)) of
          Inl e \<Rightarrow> Inl e
        | Inr loaded \<Rightarrow>
        let ramdisk_format = snd loaded;
            old_entries = [0..<length (fst loaded)];
            s0 = (fst loaded, old_entries);
            s1 = append_new (append_new s0 (new_directory ''overlay.d'' 488))
                   (new_directory ''overlay.d/sbin'' 488);
            s2 = (if ramdisks img \<noteq> []
                  then (fst s1, filter (\<lambda>a. name (fst s1 ! a) \<noteq> ''init'') (snd s1))
                  else s1)
        in case zip_open z ''lib/arm64-v8a/libmagiskinit.so'' of
             Inl e \<Rightarrow> Inl e
           | Inr init_data \<Rightarrow>
               (case add_xz_files xz z (xz_files z) (append_new s2 (new_file ''init'' 488 init_data)) of
                  Inl e \<Rightarrow> Inl e
                | Inr s3 \<Rightarrow>
                    (case apply_magisk_backup (fst s3) old_entries (snd s3) of
                       Inl e \<Rightarrow> Inl e
                     | Inr s4 \<Rightarrow>
                         (case magisk_config self sha1_hexdigest of
                            Inl e \<Rightarrow> Inl e
                          | Inr config \<Rightarrow>
                              (let s5 = append_new s4 (new_file ''.backup/.magisk'' 0 config)
                               in case save_ramdisk (deref (fst s5) (snd s5)) ramdisk_format of
                                    Inl e \<Rightarrow> Inl e
                                  | Inr new_ramdisk \<Rightarrow>
                                      Inr (img\<lparr> ramdisks :=
                                        (if ramdisks img \<noteq> []
                                         then (ramdisks img)[0 := new_ramdisk]
                                         else ramdisks img @ [new_ramdisk]) \<rparr>))))))"

subsection \<open>OTA certificate replacement (boot.py, OtaCertPatch.patch)\<close>

definition OTACERTS_PATH :: string where
  "OTACERTS_PATH = ''system/etc/security/otacerts.zip''"

text \<open>
  \<^verbatim>\<open>otacerts = next((e for e in entries if e.name == OTACERTS_PATH), None)\<close> is the first
  entry of that name, \<open>find\<close>; an entry object is truthy. \<^verbatim>\<open>otacerts.content = ...\<close>
  assigns to that object, which is the first entry of that name in \<^verbatim>\<open>entries\<close>; the
  other entries stay as they are.
\<close>

fun set_otacerts_content :: "string \<Rightarrow> cpio_entry list \<Rightarrow> cpio_entry list" where
  "set_otacerts_content c [] = []"
| "set_otacerts_content c (e # es) =
     (if name e = OTACERTS_PATH then e\<lparr> content := c \<rparr> # es
      else e # set_otacerts_content c es)"

text \<open>
  The loop \<^verbatim>\<open>for i, ramdisk in enumerate(boot_image.ramdisks)\<close>, with the list
  \<^verbatim>\<open>boot_image.ramdisks\<close> that it assigns to and the flag \<^verbatim>\<open>found_otacerts\<close> as its state.
  \<open>zip_bytes\<close> stands for the writer of the Python library \<^verbatim>\<open>zipfile\<close>: the bytes of the
  archive with the given entries (name and content), with the metadata that the source
  sets. \<open>cert\<close> is the content of the file \<^verbatim>\<open>cert_ota\<close>.
\<close>

fun otacerts_loop ::
  "((string \<times> string) list \<Rightarrow> string) \<Rightarrow> string \<Rightarrow> (nat \<times> ramdisk) list \<Rightarrow> ramdisk list \<times> bool
     \<Rightarrow> error + ramdisk list \<times> bool" where
  "otacerts_loop zip_bytes cert [] s = Inr s"
| "otacerts_loop zip_bytes cert ((i, ramdisk) # rest) s =
     (case load_ramdisk ramdisk of
        Inl e \<Rightarrow> Inl e
      | Inr (entries, ramdisk_format) \<Rightarrow>
          (case find (\<lambda>e. name e = OTACERTS_PATH) entries of
             None \<Rightarrow> otacerts_loop zip_bytes cert rest s
           | Some otacerts \<Rightarrow>
               (case save_ramdisk
                       (set_otacerts_content (zip_bytes [(''ota.x509.pem'', cert)]) entries)
                       ramdisk_format of
                  Inl e \<Rightarrow> Inl e
                | Inr new_ramdisk \<Rightarrow>
                    otacerts_loop zip_bytes cert rest ((fst s)[i := new_ramdisk], True))))"

definition OtaCertPatch_patch ::
  "((string \<times> string) list \<Rightarrow> string) \<Rightarrow> string \<Rightarrow> boot_image \<Rightarrow> error + boot_image" where
  "OtaCertPatch_patch zip_bytes cert img =
     (case otacerts_loop zip_bytes cert (enumerate 0 (ramdisks img)) (ramdisks img, False) of
        Inl e \<Rightarrow> Inl e
      | Inr (rds, found_otacerts) \<Rightarrow>
          if \<not> found_otacerts then Inl OtacertsNotFound
          else Inr (img\<lparr> ramdisks := rds \<rparr>))"



subsection \<open>Prepatched image adoption (boot.py, PrepatchedImage.patch)\<close>

definition MIN_LEVEL :: int where
  "MIN_LEVEL = 0"

definition MAX_LEVEL :: int where
  "MAX_LEVEL = 2"

text \<open>
  \<^verbatim>\<open>issues = [[], [], []]\<close>, one list per level, and \<^verbatim>\<open>issues[level].append(...)\<close>.
\<close>

definition no_issues :: "issue list list" where
  "no_issues = [[], [], []]"

definition add_issue :: "nat \<Rightarrow> issue \<Rightarrow> issue list list \<Rightarrow> issue list list" where
  "add_issue level i issues = issues[level := issues ! level @ [i]]"

text \<open>
  The three loops over the header dicts (lines 319-335). The key sets
  \<^verbatim>\<open>new.keys() - old.keys()\<close>, \<^verbatim>\<open>old.keys() - new.keys()\<close> and
  \<^verbatim>\<open>old.keys() & new.keys()\<close> are iterated in the order of the dict named first.
\<close>

definition field_level :: "string \<Rightarrow> nat" where
  "field_level k =
     (if k \<in> {''id'', ''os_version''} then 0
      else if k \<in> {''cmdline'', ''extra_cmdline''} then 1
      else 2)"

definition fields_added :: "(string \<times> string) list \<Rightarrow> (string \<times> string) list \<Rightarrow> issue list list \<Rightarrow> issue list list" where
  "fields_added old_header new_header issues =
     fold (\<lambda>k. add_issue 2 (FieldAdded k))
       (filter (\<lambda>k. k \<notin> set (dict_keys old_header)) (dict_keys new_header)) issues"

definition fields_removed :: "(string \<times> string) list \<Rightarrow> (string \<times> string) list \<Rightarrow> issue list list \<Rightarrow> issue list list" where
  "fields_removed old_header new_header issues =
     fold (\<lambda>k. add_issue 2 (FieldRemoved k))
       (filter (\<lambda>k. k \<notin> set (dict_keys new_header)) (dict_keys old_header)) issues"

definition field_changed :: "(string \<times> string) list \<Rightarrow> string \<times> string \<Rightarrow> issue list list \<Rightarrow> issue list list" where
  "field_changed new_header kv issues =
     (case map_of new_header (fst kv) of
        None \<Rightarrow> issues
      | Some v' \<Rightarrow>
          if snd kv \<noteq> v' then add_issue (field_level (fst kv)) (FieldChanged (fst kv) (snd kv) v') issues
          else issues)"

definition fields_changed :: "(string \<times> string) list \<Rightarrow> (string \<times> string) list \<Rightarrow> issue list list \<Rightarrow> issue list list" where
  "fields_changed old_header new_header issues =
     fold (field_changed new_header)
       (filter (\<lambda>kv. fst kv \<in> set (dict_keys new_header)) old_header) issues"

text \<open>The loop over the optional sections (lines 337-344).\<close>

definition sections :: "(string \<times> (boot_image \<Rightarrow> string option)) list" where
  "sections =
     [(''kernel'', kernel), (''second'', second), (''recovery_dtbo'', recovery_dtbo),
      (''dtb'', dtb), (''bootconfig'', bootconfig)]"

definition section_issue ::
  "boot_image \<Rightarrow> boot_image \<Rightarrow> string \<times> (boot_image \<Rightarrow> string option) \<Rightarrow> issue list list \<Rightarrow> issue list list" where
  "section_issue img prepatched attr issues =
     (let original_val = snd attr img; prepatched_val = snd attr prepatched
      in if original_val = None \<and> prepatched_val \<noteq> None
         then add_issue 1 (SectionAdded (fst attr)) issues
         else if original_val \<noteq> None \<and> prepatched_val = None
         then add_issue 2 (SectionRemoved (fst attr)) issues
         else issues)"

text \<open>
  \<^verbatim>\<open>_get_kmi_version\<close> (lines 378-393). Modelled from the spec: the \<^verbatim>\<open>compression\<close> module
  is not among the source files; \<open>read_compressed\<close> stands for opening a
  \<^verbatim>\<open>CompressedFile\<close> on the bytes and reading it, which raises when it does not accept
  them (spec, section 4.1), and \<^verbatim>\<open>io.BytesIO(None)\<close> is the empty buffer. The source
  catches a \<^verbatim>\<open>ValueError\<close> and falls back to \<^verbatim>\<open>boot_image.kernel\<close>, which may be
  \<^verbatim>\<open>None\<close>: searching \<^verbatim>\<open>None\<close> raises \<^verbatim>\<open>TypeError\<close>. \<open>version_search\<close> stands for
  \<^verbatim>\<open>VERSION_REGEX.search\<close> of the Python library and gives the three groups of the first
  match.
\<close>

definition is_ValueError :: "error \<Rightarrow> bool" where
  "is_ValueError e =
     (case e of
        ValueError \<Rightarrow> True
      | UnsupportedMagiskVersion v \<Rightarrow> True
      | PreinitDeviceRequired v \<Rightarrow> True
      | UnicodeEncodeError \<Rightarrow> True
      | IncompatibleImage errors \<Rightarrow> True
      | _ \<Rightarrow> False)"

definition get_kmi_version ::
  "(string \<Rightarrow> error + string) \<Rightarrow> (string \<Rightarrow> (string \<times> string \<times> string) option) \<Rightarrow> boot_image
     \<Rightarrow> error + string option" where
  "get_kmi_version read_compressed version_search boot_image =
     (case (case read_compressed (case kernel boot_image of None \<Rightarrow> [] | Some k \<Rightarrow> k) of
              Inl e \<Rightarrow> if is_ValueError e then Inr (kernel boot_image) else Inl e
            | Inr d \<Rightarrow> Inr (Some d)) of
        Inl e \<Rightarrow> Inl e
      | Inr None \<Rightarrow> Inl TypeError
      | Inr (Some decompressed) \<Rightarrow>
          (case version_search decompressed of
             None \<Rightarrow> Inr None
           | Some (a, b, c) \<Rightarrow> Inr (Some (a @ ''-'' @ b @ ''-'' @ c))))"

text \<open>
  Lines 311-357: all the issues found, or the exception that \<^verbatim>\<open>_get_kmi_version\<close> raises
  while they are collected.
\<close>

definition collect_issues ::
  "(string \<Rightarrow> error + string) \<Rightarrow> (string \<Rightarrow> (string \<times> string \<times> string) option) \<Rightarrow> boot_image
     \<Rightarrow> boot_image \<Rightarrow> error + issue list list" where
  "collect_issues read_compressed version_search img prepatched =
     (let old_header = header img;
          new_header = header prepatched;
          i1 = fields_added old_header new_header no_issues;
          i2 = fields_removed old_header new_header i1;
          i3 = fields_changed old_header new_header i2;
          i4 = fold (section_issue img prepatched) sections i3;
          i5 = (if length (ramdisks prepatched) < length (ramdisks img)
                then add_issue 2 (RamdisksDecreased (length (ramdisks img)) (length (ramdisks prepatched))) i4
                else i4)
      in if kernel img \<noteq> None
         then (case get_kmi_version read_compressed version_search img of
                 Inl e \<Rightarrow> Inl e
               | Inr old_kmi \<Rightarrow>
                   (case get_kmi_version read_compressed version_search prepatched of
                      Inl e \<Rightarrow> Inl e
                    | Inr new_kmi \<Rightarrow>
                        Inr (if old_kmi \<noteq> new_kmi then add_issue 2 (KmiChanged old_kmi new_kmi) i5
                             else i5)))
         else Inr i5)"

text \<open>
  Lines 359-376: the issues below the fatal level are warnings, the others errors.
  \<^verbatim>\<open>range(a, b)\<close> over integers is \<open>[a..b - 1]\<close>. The result is the list of the calls of
  \<^verbatim>\<open>warning_fn\<close>, each with the warnings its message lists, and the outcome (the error
  raised with the errors its message lists, or the prepatched image returned).
\<close>

definition report_issues ::
  "int \<Rightarrow> issue list list \<Rightarrow> boot_image \<Rightarrow> issue list list \<times> (error + boot_image)" where
  "report_issues fatal_level issues prepatched =
     (let warnings = concat (map (\<lambda>i. issues ! nat i) [MIN_LEVEL..min (MAX_LEVEL + 1) fatal_level - 1]);
          errors = concat (map (\<lambda>i. issues ! nat i) [max MIN_LEVEL fatal_level..MAX_LEVEL + 1 - 1])
      in (if warnings \<noteq> [] then [warnings] else [],
          if errors \<noteq> [] then Inl (IncompatibleImage errors) else Inr prepatched))"

text \<open>
  \<^verbatim>\<open>PrepatchedImage.patch\<close>: an exception while the issues are collected leaves before
  any warning.
\<close>

definition PrepatchedImage_patch ::
  "int \<Rightarrow> (string \<Rightarrow> error + string) \<Rightarrow> (string \<Rightarrow> (string \<times> string \<times> string) option)
     \<Rightarrow> boot_image \<Rightarrow> boot_image \<Rightarrow> issue list list \<times> (error + boot_image)" where
  "PrepatchedImage_patch fatal_level read_compressed version_search img prepatched =
     (case collect_issues read_compressed version_search img prepatched of
        Inl e \<Rightarrow> ([], Inl e)
      | Inr issues \<Rightarrow> report_issues fatal_level issues prepatched)"

text \<open>
  main.py, \<^verbatim>\<open>patch_subcommand\<close>: the fatal level is \<^verbatim>\<open>args.ignore_prepatched_compat + 1\<close>,
  and the option counts its occurrences from the default 0.
\<close>

definition fatal_level_of_args :: "int \<Rightarrow> int" where
  "fatal_level_of_args ignore_prepatched_compat = ignore_prepatched_compat + 1"

text \<open>
  What the spec calls the level-0 divergences of a prepatched image: the header fields
  \<^verbatim>\<open>id\<close> and \<^verbatim>\<open>os_version\<close> that both headers have, with different values, in the
  order of the original header, each with the old and the new value.
\<close>

definition level0_divergences :: "(string \<times> string) list \<Rightarrow> (string \<times> string) list \<Rightarrow> issue list" where
  "level0_divergences old_header new_header =
     concat (map (\<lambda>kv. case map_of new_header (fst kv) of
                          None \<Rightarrow> []
                        | Some v' \<Rightarrow>
                            if fst kv \<in> {''id'', ''os_version''} \<and> snd kv \<noteq> v'
                            then [FieldChanged (fst kv) (snd kv) v'] else [])
               old_header)"

subsection \<open>Re-signing a boot image (boot.py, patch\_boot)\<close>

text \<open>
  What \<^verbatim>\<open>avb._parse_image\<close> of the avbtool library returns, as far as \<^verbatim>\<open>patch_boot\<close>
  reads it: the vbmeta header fields, the descriptors and the image size. A hash
  descriptor carries its partition name, hash algorithm and salt; the other descriptor
  kinds are opaque.
\<close>

datatype descriptor =
    AvbHashDescriptor string string string
  | OtherDescriptor string

record vbmeta_header =
  public_key_size :: nat
  algorithm_type :: nat
  rollback_index :: nat
  flags :: nat
  rollback_index_location :: nat
  release_string :: string

record parsed_image =
  vbmeta :: vbmeta_header
  descriptors :: "descriptor list"
  image_size :: nat

text \<open>The keyword arguments of \<^verbatim>\<open>avb.add_hash_footer\<close> that are not constants.\<close>

record hash_footer_args =
  partition_size :: nat
  partition_name :: string
  hash_algorithm :: string
  salt :: string
  algorithm_name :: string
  key_path :: "string option"
  arg_rollback_index :: nat
  arg_flags :: nat
  arg_rollback_index_location :: nat
  kernel_cmdlines :: "descriptor list"
  arg_release_string :: string

text \<open>Python truthiness of a path that may be \<^verbatim>\<open>None\<close>: \<^verbatim>\<open>not not key\<close>.\<close>

definition truthy :: "string option \<Rightarrow> bool" where
  "truthy k = (case k of None \<Rightarrow> False | Some s \<Rightarrow> s \<noteq> [])"

text \<open>\<^verbatim>\<open>bytes.hex()\<close>: two lower-case hexadecimal digits per byte.\<close>

definition hex_of_bytes :: "string \<Rightarrow> string" where
  "hex_of_bytes s =
     concat (map (\<lambda>c. [hex_digit ((of_char c :: nat) div 16), hex_digit ((of_char c :: nat) mod 16)]) s)"

text \<open>The loop over the descriptors (lines 416-428).\<close>

fun split_descriptors ::
  "descriptor list \<Rightarrow> (string \<times> string \<times> string) option \<Rightarrow> descriptor list
     \<Rightarrow> error + (string \<times> string \<times> string) option \<times> descriptor list" where
  "split_descriptors [] hash new_descriptors = Inr (hash, new_descriptors)"
| "split_descriptors (AvbHashDescriptor pn ha sa # ds) hash new_descriptors =
     (if hash \<noteq> None then Inl MultipleHashDescriptors
      else split_descriptors ds (Some (pn, ha, sa)) new_descriptors)"
| "split_descriptors (OtherDescriptor d # ds) hash new_descriptors =
     split_descriptors ds hash (new_descriptors @ [OtherDescriptor d])"

text \<open>The loop \<^verbatim>\<open>for patch_func in patch_funcs\<close>: each patch may raise.\<close>

fun apply_patches :: "('f \<Rightarrow> error + 'f) list \<Rightarrow> 'f \<Rightarrow> error + 'f" where
  "apply_patches [] f = Inr f"
| "apply_patches (patch_func # ps) f =
     (case patch_func f of Inl e \<Rightarrow> Inl e | Inr f' \<Rightarrow> apply_patches ps f')"

text \<open>
  \<^verbatim>\<open>patch_boot\<close>, in its two parts. The avbtool library is outside the repository:
  \<open>lookup_algorithm_by_type\<close> (the name it returns, or its error for an unknown type) and
  \<open>erase_footer\<close> are parameters, \<open>parsed\<close> is the result of \<^verbatim>\<open>avb._parse_image\<close> on the
  input and \<open>input\<close> the content of the input file.

  Lines 416-481, \<open>patch_and_sign\<close>: split the descriptors, choose the algorithm, apply
  the patches and call \<^verbatim>\<open>add_hash_footer\<close>. The result is the patched image and the
  arguments of that call: it signs with \<open>key_path\<close> when that is a path, and adds an
  unsigned footer when it is \<^verbatim>\<open>None\<close>.
\<close>

definition patch_and_sign ::
  "(nat \<Rightarrow> error + string) \<Rightarrow> ('f \<Rightarrow> 'f) \<Rightarrow> parsed_image \<Rightarrow> 'f \<Rightarrow> string option
     \<Rightarrow> ('f \<Rightarrow> error + 'f) list \<Rightarrow> error + 'f \<times> hash_footer_args" where
  "patch_and_sign lookup_algorithm_by_type erase_footer parsed input key patch_funcs =
     (case split_descriptors (descriptors parsed) None [] of
        Inl e \<Rightarrow> Inl e
      | Inr (None, new_descriptors) \<Rightarrow> Inl NoHashDescriptor
      | Inr (Some (pn, ha, sa), new_descriptors) \<Rightarrow>
          (case lookup_algorithm_by_type (algorithm_type (vbmeta parsed)) of
             Inl e \<Rightarrow> Inl e
           | Inr name0 \<Rightarrow>
               (let algorithm_name = (if name0 = ''SHA256_RSA2048'' then ''SHA256_RSA4096'' else name0)
                in case apply_patches patch_funcs (erase_footer input) of
                     Inl e \<Rightarrow> Inl e
                   | Inr f \<Rightarrow>
                       Inr (f,
                         \<lparr> partition_size = image_size parsed,
                           partition_name = pn,
                           hash_algorithm = ha,
                           salt = hex_of_bytes sa,
                           algorithm_name = algorithm_name,
                           key_path = key,
                           arg_rollback_index = rollback_index (vbmeta parsed),
                           arg_flags = flags (vbmeta parsed),
                           arg_rollback_index_location = rollback_index_location (vbmeta parsed),
                           kernel_cmdlines = new_descriptors,
                           arg_release_string = release_string (vbmeta parsed) \<rparr>))))"

text \<open>Lines 403-414, the key presence check, and then the rest.\<close>

definition patch_boot ::
  "(nat \<Rightarrow> error + string) \<Rightarrow> ('f \<Rightarrow> 'f) \<Rightarrow> parsed_image \<Rightarrow> 'f \<Rightarrow> string option \<Rightarrow> bool
     \<Rightarrow> ('f \<Rightarrow> error + 'f) list \<Rightarrow> error + 'f \<times> hash_footer_args" where
  "patch_boot lookup_algorithm_by_type erase_footer parsed input key0 only_if_previously_signed patch_funcs =
     (let have_key_old = (public_key_size (vbmeta parsed) \<noteq> 0);
          key = (if \<not> have_key_old \<and> only_if_previously_signed then None else key0);
          have_key_new = truthy key
      in if have_key_old \<noteq> have_key_new then Inl (KeyPresenceMismatch have_key_old have_key_new)
         else patch_and_sign lookup_algorithm_by_type erase_footer parsed input key patch_funcs)"

text \<open>
  The hash descriptors of a descriptor list, each with its partition name, hash algorithm
  and salt, and the other descriptors, in their order.
\<close>

fun hash_descriptors :: "descriptor list \<Rightarrow> (string \<times> string \<times> string) list" where
  "hash_descriptors [] = []"
| "hash_descriptors (AvbHashDescriptor pn ha sa # ds) = (pn, ha, sa) # hash_descriptors ds"
| "hash_descriptors (OtherDescriptor d # ds) = hash_descriptors ds"

fun other_descriptors :: "descriptor list \<Rightarrow> descriptor list" where
  "other_descriptors [] = []"
| "other_descriptors (AvbHashDescriptor pn ha sa # ds) = other_descriptors ds"
| "other_descriptors (OtherDescriptor d # ds) = OtherDescriptor d # other_descriptors ds"

subsection \<open>OTA zip re-emission (main.py, patch\_ota\_zip)\<close>

definition PATH_METADATA :: string where
  "PATH_METADATA = ''META-INF/com/android/metadata''"

definition PATH_METADATA_PB :: string where
  "PATH_METADATA_PB = PATH_METADATA @ ''.pb''"

definition PATH_OTACERT :: string where
  "PATH_OTACERT = ''META-INF/com/android/otacert''"

definition PATH_PAYLOAD :: string where
  "PATH_PAYLOAD = ''payload.bin''"

definition PATH_PROPERTIES :: string where
  "PATH_PROPERTIES = ''payload_properties.txt''"

text \<open>
  A \<^verbatim>\<open>zipfile.ZipInfo\<close> of the Python library, as far as \<^verbatim>\<open>patch_ota_zip\<close> reads it. The
  input archive is its \<^verbatim>\<open>infolist()\<close>, each entry with the bytes that \<^verbatim>\<open>z_in.open(info)\<close>
  reads.
\<close>

record zip_info =
  filename :: string
  compress_type :: nat
  extra :: string

definition ZIP_STORED :: nat where
  "ZIP_STORED = 0"

text \<open>
  \<^verbatim>\<open>strip_bad_extra_fields\<close> (lines 239-256). \<^verbatim>\<open>struct.unpack('<HH', ...)\<close> reads two
  little-endian 16-bit numbers and raises \<^verbatim>\<open>struct.error\<close> when the slice has fewer than
  four bytes; the slice \<^verbatim>\<open>extra[offset:next_offset]\<close> is cut at the end of the bytes.
\<close>

function strip_loop :: "string \<Rightarrow> nat \<Rightarrow> string \<Rightarrow> error + string" where
  "strip_loop ex offset new_extra =
     (if offset < length ex then
        (if length ex < offset + 4 then Inl StructError
         else strip_loop ex
                (offset + 4 + ((of_char (ex ! (offset + 2)) :: nat) + 256 * of_char (ex ! (offset + 3))))
                (if (of_char (ex ! offset) :: nat) + 256 * of_char (ex ! (offset + 1)) \<notin> {0x0001, 0xd935}
                 then new_extra @ take (4 + ((of_char (ex ! (offset + 2)) :: nat) + 256 * of_char (ex ! (offset + 3))))
                                     (drop offset ex)
                 else new_extra))
      else Inr new_extra)"
  by pat_completeness auto
termination
  by (relation "measure (\<lambda>(ex, offset, new_extra). length ex - offset)") auto

declare strip_loop.simps [simp del]

definition strip_bad_extra_fields :: "string \<Rightarrow> error + string" where
  "strip_bad_extra_fields ex = strip_loop ex 0 []"

text \<open>
  The first loop (lines 307-315): \<^verbatim>\<open>missing\<close> is a set, here a list without repetition,
  and \<^verbatim>\<open>missing.remove\<close> takes the name out. The loop leaves early once nothing is
  missing and both indices are set.
\<close>

definition REQUIRED :: "string list" where
  "REQUIRED = [PATH_METADATA, PATH_METADATA_PB, PATH_OTACERT, PATH_PAYLOAD, PATH_PROPERTIES]"

fun scan_loop ::
  "(nat \<times> zip_info \<times> string) list \<Rightarrow> string list \<times> int \<times> int \<Rightarrow> string list \<times> int \<times> int" where
  "scan_loop [] s = s"
| "scan_loop ((i, info, data) # rest) (missing, i_payload, i_properties) =
     (let missing' = (if filename info \<in> set missing then removeAll (filename info) missing
                      else missing);
          i_payload' = (if filename info = PATH_PAYLOAD then int i else i_payload);
          i_properties' = (if filename info = PATH_PAYLOAD then i_properties
                           else if filename info = PATH_PROPERTIES then int i
                           else i_properties)
      in if missing' = [] \<and> i_payload' \<ge> 0 \<and> i_properties' \<ge> 0
         then (missing', i_payload', i_properties')
         else scan_loop rest (missing', i_payload', i_properties'))"

text \<open>
  The second loop (lines 331-387), with its variables and the entries written to
  \<^verbatim>\<open>z_out\<close>, in the order of writing, as the state. \<open>patch_ota_payload\<close> stands for the
  function of that name, which drives the \<^verbatim>\<open>ota\<close> module (not among the source files): it
  gives the new payload and the properties, or raises. \<open>cert\<close> is the content of the file
  \<^verbatim>\<open>cert_ota\<close>. Writing \<^verbatim>\<open>None\<close> raises \<^verbatim>\<open>TypeError\<close>.
\<close>

record emit_state =
  properties :: "string option"
  metadata_info :: "zip_info option"
  metadata_pb_info :: "zip_info option"
  metadata_pb_raw :: "string option"
  written :: "(zip_info \<times> string) list"

fun emit_loop ::
  "(string \<Rightarrow> error + string \<times> string) \<Rightarrow> string \<Rightarrow> (zip_info \<times> string) list \<Rightarrow> emit_state
     \<Rightarrow> error + emit_state" where
  "emit_loop patch_ota_payload cert [] s = Inr s"
| "emit_loop patch_ota_payload cert ((info, data) # rest) s =
     (case strip_bad_extra_fields (extra info) of
        Inl e \<Rightarrow> Inl e
      | Inr new_extra \<Rightarrow>
          if filename info = PATH_METADATA
          then emit_loop patch_ota_payload cert rest
                 (s\<lparr> metadata_info := Some (info\<lparr> extra := new_extra \<rparr>) \<rparr>)
          else if filename info = PATH_METADATA_PB
          then emit_loop patch_ota_payload cert rest
                 (s\<lparr> metadata_pb_info := Some (info\<lparr> extra := new_extra \<rparr>),
                     metadata_pb_raw := Some data \<rparr>)
          else if filename info = PATH_OTACERT
          then emit_loop patch_ota_payload cert rest
                 (s\<lparr> written := written s @ [(info\<lparr> extra := new_extra \<rparr>, cert)] \<rparr>)
          else if filename info = PATH_PAYLOAD
          then (if compress_type info \<noteq> ZIP_STORED then Inl (NotStored (filename info))
                else case patch_ota_payload data of
                       Inl e \<Rightarrow> Inl e
                     | Inr (new_payload, props) \<Rightarrow>
                         emit_loop patch_ota_payload cert rest
                           (s\<lparr> properties := Some props,
                               written := written s @ [(info\<lparr> extra := new_extra \<rparr>, new_payload)] \<rparr>))
          else if filename info = PATH_PROPERTIES
          then (if compress_type info \<noteq> ZIP_STORED then Inl (NotStored (filename info))
                else case properties s of
                       None \<Rightarrow> Inl TypeError
                     | Some p \<Rightarrow>
                         emit_loop patch_ota_payload cert rest
                           (s\<lparr> written := written s @ [(info\<lparr> extra := new_extra \<rparr>, p)] \<rparr>))
          else emit_loop patch_ota_payload cert rest
                 (s\<lparr> written := written s @ [(info\<lparr> extra := new_extra \<rparr>, data)] \<rparr>))"

text \<open>
  \<^verbatim>\<open>patch_ota_zip\<close> up to the call of \<^verbatim>\<open>ota.add_metadata\<close>: the result is what has been
  written and what that call is given. The two indices are not negative when nothing is
  missing, so that the exchange assigns at the positions \<open>nat i_payload\<close> and
  \<open>nat i_properties\<close>; the right-hand side of the tuple assignment is read first.
\<close>

definition patch_ota_zip ::
  "(string \<Rightarrow> error + string \<times> string) \<Rightarrow> string \<Rightarrow> (zip_info \<times> string) list \<Rightarrow> error + emit_state" where
  "patch_ota_zip patch_ota_payload cert infolist =
     (case scan_loop (enumerate 0 infolist) (REQUIRED, - 1, - 1) of
        (missing, i_payload, i_properties) \<Rightarrow>
          if missing \<noteq> [] then Inl (MissingFiles missing)
          else emit_loop patch_ota_payload cert
                 (if i_payload > i_properties
                  then infolist[nat i_payload := infolist ! nat i_properties,
                                nat i_properties := infolist ! nat i_payload]
                  else infolist)
                 \<lparr> properties = None, metadata_info = None, metadata_pb_info = None,
                   metadata_pb_raw = None, written = [] \<rparr>)"

definition not_metadata :: "string \<Rightarrow> bool" where
  "not_metadata n = (n \<noteq> PATH_METADATA \<and> n \<noteq> PATH_METADATA_PB)"

section \<open>Properties\<close>

subsection \<open>Magisk version gate\<close>

lemma VER_PREINIT_DEVICE_eq: "VER_PREINIT_DEVICE = (25211, 27000)"
  by (simp add: VER_PREINIT_DEVICE_def VERS_SUPPORTED_def range_end_def)

lemma VER_RANDOM_SEED_eq: "VER_RANDOM_SEED = (25211, 27000)"
  by (simp add: VER_RANDOM_SEED_def VERS_SUPPORTED_def range_end_def)

lemma version_supported_iff:
  "list_ex (\<lambda>s. in_range v s) VERS_SUPPORTED =
     (25102 \<le> v \<and> v < 25207 \<or> 25211 \<le> v \<and> v < 26200 \<or> 26201 \<le> v \<and> v < 27000)"
  by (simp add: VERS_SUPPORTED_def in_range_def)

lemma hex_default_seed: "hex_of_nat DEFAULT_RANDOM_SEED = ''fedcba9876543210''"
  unfolding DEFAULT_RANDOM_SEED_def by (simp add: hex_of_nat.simps hex_digit_def)

text \<open>
  C10. \<^verbatim>\<open>validate\<close> raises the unsupported-version error exactly for the versions
  outside [25102, 25207), [25211, 26200) and [26201, 27000); with a preinit device
  configured it accepts exactly the versions inside. Version 26200 is rejected as
  unsupported, 26199 and 26201 pass the version-support check.
\<close>

theorem validate_supported_versions:
  "(validate (MagiskRootPatch_init v dev seed) = Inl (UnsupportedMagiskVersion v))
      = (\<not> (25102 \<le> v \<and> v < 25207 \<or> 25211 \<le> v \<and> v < 26200 \<or> 26201 \<le> v \<and> v < 27000))
   \<and> (validate (MagiskRootPatch_init v (Some d) seed) = Inr ())
      = (25102 \<le> v \<and> v < 25207 \<or> 25211 \<le> v \<and> v < 26200 \<or> 26201 \<le> v \<and> v < 27000)
   \<and> validate (MagiskRootPatch_init 26200 dev seed) = Inl (UnsupportedMagiskVersion 26200)
   \<and> validate (MagiskRootPatch_init 26199 dev seed) \<noteq> Inl (UnsupportedMagiskVersion 26199)
   \<and> validate (MagiskRootPatch_init 26201 dev seed) \<noteq> Inl (UnsupportedMagiskVersion 26201)"
  by (simp add: validate_def MagiskRootPatch_init_def version_supported_iff)

theorem validate_supported_versions_witness:
  "validate (MagiskRootPatch_init 26200 (Some ''sda1'') None) = Inl (UnsupportedMagiskVersion 26200)
   \<and> validate (MagiskRootPatch_init 26199 (Some ''sda1'') None) = Inr ()
   \<and> validate (MagiskRootPatch_init 26201 (Some ''sda1'') None) = Inr ()
   \<and> validate (MagiskRootPatch_init 25207 (Some ''sda1'') None) = Inl (UnsupportedMagiskVersion 25207)"
  using validate_supported_versions [of 26200 "Some ''sda1''" None "''sda1''"]
    validate_supported_versions [of 26199 "Some ''sda1''" None "''sda1''"]
    validate_supported_versions [of 26201 "Some ''sda1''" None "''sda1''"]
    validate_supported_versions [of 25207 "Some ''sda1''" None "''sda1''"]
  by simp

subsection \<open>The Magisk backup directory\<close>

lemma fold_update_keys:
  "fst ` set (fold (\<lambda>a d. AList.update (f a) a d) es d0) = f ` set es \<union> fst ` set d0"
  by (induction es arbitrary: d0) (auto simp: dom_update)

lemma fold_update_distinct:
  "distinct (map fst d0) \<Longrightarrow> distinct (map fst (fold (\<lambda>a d. AList.update (f a) a d) es d0))"
  by (induction es arbitrary: d0) (auto simp: distinct_update)

lemma fold_update_lookup:
  "map_of (fold (\<lambda>a d. AList.update (f a) a d) es d0) n = Some a \<Longrightarrow>
     (a \<in> set es \<and> f a = n) \<or> map_of d0 n = Some a"
proof (induction es arbitrary: d0)
  case Nil
  then show ?case by simp
next
  case (Cons e es)
  from Cons.prems have "map_of (fold (\<lambda>a d. AList.update (f a) a d) es (AList.update (f e) e d0)) n = Some a"
    by simp
  from Cons.IH [OF this] show ?case
    by (auto simp: update_conv split: if_splits)
qed

lemma by_name_keys: "set (dict_keys (by_name h es)) = (\<lambda>a. name (h ! a)) ` set es"
  using fold_update_keys [of "\<lambda>a. name (h ! a)" es "[]"] by (simp add: by_name_def dict_keys_def)

lemma by_name_distinct: "distinct (dict_keys (by_name h es))"
  using fold_update_distinct [of "[]" "\<lambda>a. name (h ! a)" es] by (simp add: by_name_def dict_keys_def)

lemma by_name_lookup:
  "map_of (by_name h es) n = Some a \<Longrightarrow> a \<in> set es \<and> name (h ! a) = n"
  using fold_update_lookup [of "\<lambda>a. name (h ! a)" es "[]" n a] by (simp add: by_name_def)

lemma by_name_lookup_ex:
  "n \<in> set (dict_keys (by_name h es)) \<Longrightarrow> \<exists>a. map_of (by_name h es) n = Some a"
  by (metis dict_keys_def map_of_eq_None_iff not_Some_eq set_map)

lemma by_name_None: "(map_of (by_name h es) n = None) = (n \<notin> (\<lambda>a. name (h ! a)) ` set es)"
  by (metis by_name_keys dict_keys_def map_of_eq_None_iff set_map)

lemma backup_loop_result:
  assumes "distinct ns"
    and "\<forall>n \<in> set ns. \<exists>a. map_of obn n = Some a \<and> a < length h \<and> name (h ! a) = n"
  shows "\<exists>h'. backup_loop obn ns (h, es) = Inr (h', es @ map (\<lambda>n. the (map_of obn n)) ns)
           \<and> length h' = length h
           \<and> (\<forall>n \<in> set ns. h' ! the (map_of obn n) = (h ! the (map_of obn n))\<lparr> name := ''.backup/'' @ n \<rparr>)
           \<and> (\<forall>a. a \<notin> (\<lambda>n. the (map_of obn n)) ` set ns \<longrightarrow> h' ! a = h ! a)"
  using assms
proof (induction ns arbitrary: h es)
  case Nil
  then show ?case by simp
next
  case (Cons n ns)
  from Cons.prems obtain a where a: "map_of obn n = Some a" "a < length h" "name (h ! a) = n"
    by auto
  let ?h1 = "h[a := (h ! a)\<lparr> name := ''.backup/'' @ name (h ! a) \<rparr>]"
  have other: "\<And>n'. n' \<in> set ns \<Longrightarrow> the (map_of obn n') \<noteq> a"
  proof
    fix n' assume n': "n' \<in> set ns" and eq: "the (map_of obn n') = a"
    from Cons.prems n' obtain a' where "map_of obn n' = Some a'" "name (h ! a') = n'" by auto
    with eq a have "n' = n" by simp
    with Cons.prems(1) n' show False by simp
  qed
  have pre: "\<forall>n' \<in> set ns. \<exists>a'. map_of obn n' = Some a' \<and> a' < length ?h1 \<and> name (?h1 ! a') = n'"
  proof
    fix n' assume n': "n' \<in> set ns"
    from Cons.prems n' obtain a' where a': "map_of obn n' = Some a'" "a' < length h" "name (h ! a') = n'"
      by auto
    from other [OF n'] a' have "a' \<noteq> a" by simp
    with a' show "\<exists>a'. map_of obn n' = Some a' \<and> a' < length ?h1 \<and> name (?h1 ! a') = n'"
      by auto
  qed
  from Cons.prems have d: "distinct ns" by simp
  from Cons.IH [OF d pre, of "es @ [a]"] obtain h' where h':
    "backup_loop obn ns (?h1, es @ [a]) = Inr (h', (es @ [a]) @ map (\<lambda>n. the (map_of obn n)) ns)"
    "length h' = length ?h1"
    "\<forall>n \<in> set ns. h' ! the (map_of obn n) = (?h1 ! the (map_of obn n))\<lparr> name := ''.backup/'' @ n \<rparr>"
    "\<forall>b. b \<notin> (\<lambda>n. the (map_of obn n)) ` set ns \<longrightarrow> h' ! b = ?h1 ! b"
    by blast
  have an: "a \<notin> (\<lambda>n. the (map_of obn n)) ` set ns" using other by auto
  have 1: "backup_loop obn (n # ns) (h, es) = Inr (h', es @ map (\<lambda>n. the (map_of obn n)) (n # ns))"
    using h'(1) a by simp
  have 2: "length h' = length h" using h'(2) by simp
  have 3: "\<forall>m \<in> set (n # ns). h' ! the (map_of obn m) = (h ! the (map_of obn m))\<lparr> name := ''.backup/'' @ m \<rparr>"
  proof
    fix m assume m: "m \<in> set (n # ns)"
    show "h' ! the (map_of obn m) = (h ! the (map_of obn m))\<lparr> name := ''.backup/'' @ m \<rparr>"
    proof (cases "m = n")
      case True
      with h'(4) an a show ?thesis by simp
    next
      case False
      with m have mm: "m \<in> set ns" by simp
      from other [OF mm] h'(3) mm show ?thesis by simp
    qed
  qed
  have 4: "\<forall>b. b \<notin> (\<lambda>n. the (map_of obn n)) ` set (n # ns) \<longrightarrow> h' ! b = h ! b"
    using h'(4) a by auto
  from 1 2 3 4 show ?case by blast
qed


lemma lookup_in_keys: "map_of d n = Some a \<Longrightarrow> n \<in> set (dict_keys d)"
  unfolding dict_keys_def by (metis map_of_eq_None_iff option.distinct(1) set_map)

lemma changed_in_new_keys:
  assumes "n \<in> set (changed_names h old new)"
  shows "n \<in> set (dict_keys (by_name h new))"
proof -
  from assms obtain a where "map_of (by_name h new) n = Some a"
    unfolding changed_names_def by (cases "map_of (by_name h new) n") (simp_all split: option.splits)
  then show ?thesis by (rule lookup_in_keys)
qed

lemma deleted_changed_distinct:
  "distinct (deleted_names h old new @ changed_names h old new)"
proof -
  have 1: "distinct (deleted_names h old new)" "distinct (changed_names h old new)"
    using by_name_distinct [of h old] by (simp_all add: deleted_names_def changed_names_def)
  have 2: "set (deleted_names h old new) \<inter> set (changed_names h old new) = {}"
  proof (rule ccontr)
    assume "set (deleted_names h old new) \<inter> set (changed_names h old new) \<noteq> {}"
    then obtain n where n: "n \<in> set (deleted_names h old new)" "n \<in> set (changed_names h old new)"
      by blast
    from n(1) have "n \<notin> set (dict_keys (by_name h new))" by (simp add: deleted_names_def)
    with changed_in_new_keys [OF n(2)] show False by simp
  qed
  from 1 2 show ?thesis by simp
qed

lemma deleted_changed_keys:
  "n \<in> set (deleted_names h old new @ changed_names h old new) \<Longrightarrow> n \<in> set (dict_keys (by_name h old))"
  by (auto simp: deleted_names_def changed_names_def)

lemma apply_magisk_backup_result:
  fixes h :: store and old new :: "addr list"
  assumes wf: "\<forall>a \<in> set old. a < length h"
  defines "ns \<equiv> deleted_names h old new @ changed_names h old new"
  shows "\<exists>h'. apply_magisk_backup h old new =
                 Inr (h' @ [new_file ''.backup/.rmlist'' 0 (rmlist_data (added_names h old new))],
                      new @ [length h] @ map (\<lambda>n. the (map_of (by_name h old) n)) ns @ [Suc (length h)])
           \<and> length h' = Suc (length h)
           \<and> (\<forall>n \<in> set ns. h' ! the (map_of (by_name h old) n)
                  = (h ! the (map_of (by_name h old) n))\<lparr> name := ''.backup/'' @ n \<rparr>)"
proof -
  let ?obn = "by_name h old"
  let ?h1 = "h @ [new_directory ''.backup'' 0]"
  have pre: "\<forall>n \<in> set ns. \<exists>a. map_of ?obn n = Some a \<and> a < length ?h1 \<and> name (?h1 ! a) = n"
  proof
    fix n assume "n \<in> set ns"
    then have "n \<in> set (dict_keys ?obn)" unfolding ns_def by (rule deleted_changed_keys)
    then obtain a where a: "map_of ?obn n = Some a" using by_name_lookup_ex by blast
    from by_name_lookup [OF a] wf have "a < length h" "name (h ! a) = n" by auto
    with a show "\<exists>a. map_of ?obn n = Some a \<and> a < length ?h1 \<and> name (?h1 ! a) = n"
      by (auto simp: nth_append)
  qed
  have d: "distinct ns" unfolding ns_def by (rule deleted_changed_distinct)
  from backup_loop_result [OF d pre, of "new @ [length h]"] obtain h' where h':
    "backup_loop ?obn ns (?h1, new @ [length h]) = Inr (h', (new @ [length h]) @ map (\<lambda>n. the (map_of ?obn n)) ns)"
    "length h' = length ?h1"
    "\<forall>n \<in> set ns. h' ! the (map_of ?obn n) = (?h1 ! the (map_of ?obn n))\<lparr> name := ''.backup/'' @ n \<rparr>"
    by blast
  have lt: "\<And>n. n \<in> set ns \<Longrightarrow> the (map_of ?obn n) < length h"
    using pre by_name_lookup wf by fastforce
  have 1: "apply_magisk_backup h old new =
             Inr (h' @ [new_file ''.backup/.rmlist'' 0 (rmlist_data (added_names h old new))],
                  new @ [length h] @ map (\<lambda>n. the (map_of ?obn n)) ns @ [Suc (length h)])"
    using h'(1) h'(2) by (simp add: apply_magisk_backup_def append_new_def ns_def Let_def)
  have 3: "\<forall>n \<in> set ns. h' ! the (map_of ?obn n) = (h ! the (map_of ?obn n))\<lparr> name := ''.backup/'' @ n \<rparr>"
    using h'(3) lt by (simp add: nth_append)
  from 1 h'(2) 3 show ?thesis by auto
qed

text \<open>
  C5. After \<^verbatim>\<open>_apply_magisk_backup(old_entries, new_entries)\<close>, for every name that is in
  the old entries but not in the new ones, or in both with differing content bytes, the
  resulting list contains the old entry of that name (the object that \<^verbatim>\<open>old_by_name\<close>
  holds), renamed to \<^verbatim>\<open>.backup/<name>\<close> and otherwise unchanged. The last entry appended
  is \<^verbatim>\<open>.backup/.rmlist\<close>, whose content is the concatenation of the names in the new
  entries but not in the old ones, sorted, each once and each followed by one NUL byte.
  The call always returns.
\<close>

theorem apply_magisk_backup_closure:
  assumes wf: "\<forall>a \<in> set old_entries \<union> set new_entries. a < length h"
  shows "\<exists>h' new' added.
           apply_magisk_backup h old_entries new_entries = Inr (h', new')
         \<and> (\<forall>n \<in> names h old_entries.
              \<exists>a_o \<in> set old_entries. name (h ! a_o) = n \<and> map_of (by_name h old_entries) n = Some a_o
                \<and> ((n \<notin> names h new_entries
                     \<or> (\<exists>a_n \<in> set new_entries. name (h ! a_n) = n \<and> map_of (by_name h new_entries) n = Some a_n
                          \<and> content (h ! a_o) \<noteq> content (h ! a_n)))
                    \<longrightarrow> a_o \<in> set new' \<and> h' ! a_o = (h ! a_o)\<lparr> name := ''.backup/'' @ n \<rparr>))
         \<and> sorted added \<and> distinct added \<and> set added = names h new_entries - names h old_entries
         \<and> new' \<noteq> [] \<and> h' ! last new' =
              \<lparr> name = ''.backup/.rmlist'', perms = 0, kind = RegularFile,
                content = concat (map (\<lambda>n. n @ [CHR 0x00]) added) \<rparr>"
proof -
  let ?obn = "by_name h old_entries"
  let ?nbn = "by_name h new_entries"
  let ?ns = "deleted_names h old_entries new_entries @ changed_names h old_entries new_entries"
  let ?added = "sort (added_names h old_entries new_entries)"
  from wf have wfo: "\<forall>a \<in> set old_entries. a < length h" by simp
  from apply_magisk_backup_result [OF wfo, of new_entries] obtain h1 where h1:
    "apply_magisk_backup h old_entries new_entries =
       Inr (h1 @ [new_file ''.backup/.rmlist'' 0 (rmlist_data (added_names h old_entries new_entries))],
            new_entries @ [length h] @ map (\<lambda>n. the (map_of ?obn n)) ?ns @ [Suc (length h)])"
    "length h1 = Suc (length h)"
    "\<forall>n \<in> set ?ns. h1 ! the (map_of ?obn n) = (h ! the (map_of ?obn n))\<lparr> name := ''.backup/'' @ n \<rparr>"
    by blast
  let ?h' = "h1 @ [new_file ''.backup/.rmlist'' 0 (rmlist_data (added_names h old_entries new_entries))]"
  let ?new' = "new_entries @ [length h] @ map (\<lambda>n. the (map_of ?obn n)) ?ns @ [Suc (length h)]"
  have A: "\<forall>n \<in> names h old_entries.
              \<exists>a_o \<in> set old_entries. name (h ! a_o) = n \<and> map_of ?obn n = Some a_o
                \<and> ((n \<notin> names h new_entries
                     \<or> (\<exists>a_n \<in> set new_entries. name (h ! a_n) = n \<and> map_of ?nbn n = Some a_n
                          \<and> content (h ! a_o) \<noteq> content (h ! a_n)))
                    \<longrightarrow> a_o \<in> set ?new' \<and> ?h' ! a_o = (h ! a_o)\<lparr> name := ''.backup/'' @ n \<rparr>)"
  proof
    fix n assume n: "n \<in> names h old_entries"
    then have nk: "n \<in> set (dict_keys ?obn)" by (simp add: by_name_keys names_def)
    then obtain a_o where a_o: "map_of ?obn n = Some a_o" using by_name_lookup_ex by blast
    from by_name_lookup [OF a_o] have ao: "a_o \<in> set old_entries" "name (h ! a_o) = n" by auto
    with wfo have lt: "a_o < length h" by simp
    have imp: "a_o \<in> set ?new' \<and> ?h' ! a_o = (h ! a_o)\<lparr> name := ''.backup/'' @ n \<rparr>"
      if c: "n \<notin> names h new_entries
               \<or> (\<exists>a_n \<in> set new_entries. name (h ! a_n) = n \<and> map_of ?nbn n = Some a_n
                     \<and> content (h ! a_o) \<noteq> content (h ! a_n))"
    proof -
      have "n \<in> set ?ns"
      proof (cases "n \<in> names h new_entries")
        case False
        with nk show ?thesis by (simp add: deleted_names_def by_name_keys names_def)
      next
        case True
        with c obtain a_n where "map_of ?nbn n = Some a_n" "content (h ! a_o) \<noteq> content (h ! a_n)"
          by blast
        with nk a_o show ?thesis by (simp add: changed_names_def)
      qed
      with h1(3) a_o have "h1 ! a_o = (h ! a_o)\<lparr> name := ''.backup/'' @ n \<rparr>" by force
      moreover from \<open>n \<in> set ?ns\<close> a_o have "a_o \<in> set ?new'" by force
      ultimately show ?thesis using lt h1(2) by (simp add: nth_append)
    qed
    from ao a_o imp show "\<exists>a_o \<in> set old_entries. name (h ! a_o) = n \<and> map_of ?obn n = Some a_o
                \<and> ((n \<notin> names h new_entries
                     \<or> (\<exists>a_n \<in> set new_entries. name (h ! a_n) = n \<and> map_of ?nbn n = Some a_n
                          \<and> content (h ! a_o) \<noteq> content (h ! a_n)))
                    \<longrightarrow> a_o \<in> set ?new' \<and> ?h' ! a_o = (h ! a_o)\<lparr> name := ''.backup/'' @ n \<rparr>)"
      by blast
  qed
  have B: "sorted ?added \<and> distinct ?added \<and> set ?added = names h new_entries - names h old_entries"
    using by_name_distinct [of h new_entries]
    by (auto simp: added_names_def by_name_keys names_def)
  have C: "?new' \<noteq> [] \<and> ?h' ! last ?new' =
              \<lparr> name = ''.backup/.rmlist'', perms = 0, kind = RegularFile,
                content = concat (map (\<lambda>n. n @ [CHR 0x00]) ?added) \<rparr>"
    using h1(2) by (simp add: nth_append new_file_def rmlist_data_def NUL_def)
  show ?thesis
  proof (intro exI conjI)
    show "apply_magisk_backup h old_entries new_entries = Inr (?h', ?new')" by (rule h1(1))
    show "\<forall>n \<in> names h old_entries.
              \<exists>a_o \<in> set old_entries. name (h ! a_o) = n \<and> map_of ?obn n = Some a_o
                \<and> ((n \<notin> names h new_entries
                     \<or> (\<exists>a_n \<in> set new_entries. name (h ! a_n) = n \<and> map_of ?nbn n = Some a_n
                          \<and> content (h ! a_o) \<noteq> content (h ! a_n)))
                    \<longrightarrow> a_o \<in> set ?new' \<and> ?h' ! a_o = (h ! a_o)\<lparr> name := ''.backup/'' @ n \<rparr>)"
      by (rule A)
    show "sorted ?added" using B by (rule conjunct1)
    show "distinct ?added" using B by simp
    show "set ?added = names h new_entries - names h old_entries" using B by simp
    show "?new' \<noteq> []" by simp
    show "?h' ! last ?new' =
              \<lparr> name = ''.backup/.rmlist'', perms = 0, kind = RegularFile,
                content = concat (map (\<lambda>n. n @ [CHR 0x00]) ?added) \<rparr>"
      using C by (rule conjunct2)
  qed
qed

theorem apply_magisk_backup_closure_witness:
  "\<exists>h' new' added.
     apply_magisk_backup
       [new_file ''init'' 488 ''a'', new_file ''gone'' 420 ''b'', new_file ''init'' 488 ''c'',
        new_file ''zz'' 420 ''d'', new_file ''aa'' 420 ''e'']
       [0, 1] [2, 3, 4] = Inr (h', new')
     \<and> 0 \<in> set new' \<and> h' ! 0 = new_file ''.backup/init'' 488 ''a''
     \<and> 1 \<in> set new' \<and> h' ! 1 = new_file ''.backup/gone'' 420 ''b''
     \<and> sorted added \<and> set added = {''zz'', ''aa''}
     \<and> h' ! last new' = new_file ''.backup/.rmlist'' 0 (concat (map (\<lambda>n. n @ [CHR 0x00]) added))"
proof -
  let ?H = "[new_file ''init'' 488 ''a'', new_file ''gone'' 420 ''b'', new_file ''init'' 488 ''c'',
        new_file ''zz'' 420 ''d'', new_file ''aa'' 420 ''e'']"
  have wf: "\<forall>a \<in> set [0, 1] \<union> set [2, 3, 4]. a < length ?H" by simp
  have no: "names ?H [0, 1] = {''init'', ''gone''}" by (simp add: names_def new_file_def)
  have nn: "names ?H [2, 3, 4] = {''init'', ''zz'', ''aa''}" by (simp add: names_def new_file_def)
  from apply_magisk_backup_closure [OF wf] obtain h' new' added where
    r: "apply_magisk_backup ?H [0, 1] [2, 3, 4] = Inr (h', new')"
    and A: "\<forall>n \<in> names ?H [0, 1].
              \<exists>a_o \<in> set [0, 1]. name (?H ! a_o) = n \<and> map_of (by_name ?H [0, 1]) n = Some a_o
                \<and> ((n \<notin> names ?H [2, 3, 4]
                     \<or> (\<exists>a_n \<in> set [2, 3, 4]. name (?H ! a_n) = n \<and> map_of (by_name ?H [2, 3, 4]) n = Some a_n
                          \<and> content (?H ! a_o) \<noteq> content (?H ! a_n)))
                    \<longrightarrow> a_o \<in> set new' \<and> h' ! a_o = (?H ! a_o)\<lparr> name := ''.backup/'' @ n \<rparr>)"
    and B: "sorted added" "set added = names ?H [2, 3, 4] - names ?H [0, 1]"
    and C: "h' ! last new' =
              \<lparr> name = ''.backup/.rmlist'', perms = 0, kind = RegularFile,
                content = concat (map (\<lambda>n. n @ [CHR 0x00]) added) \<rparr>"
    by blast
  have lk: "map_of (by_name ?H [2, 3, 4]) ''init'' = Some 2"
    by (simp add: by_name_def new_file_def)
  from A no obtain a where a: "a \<in> set [0, 1]" "name (?H ! a) = ''init''"
    and ai: "(''init'' \<notin> names ?H [2, 3, 4]
                     \<or> (\<exists>a_n \<in> set [2, 3, 4]. name (?H ! a_n) = ''init'' \<and> map_of (by_name ?H [2, 3, 4]) ''init'' = Some a_n
                          \<and> content (?H ! a) \<noteq> content (?H ! a_n)))
                    \<longrightarrow> a \<in> set new' \<and> h' ! a = (?H ! a)\<lparr> name := ''.backup/'' @ ''init'' \<rparr>"
    by blast
  from a have a0: "a = 0" by (auto simp: new_file_def)
  have "\<exists>a_n \<in> set [2, 3, 4]. name (?H ! a_n) = ''init'' \<and> map_of (by_name ?H [2, 3, 4]) ''init'' = Some a_n
                          \<and> content (?H ! 0) \<noteq> content (?H ! a_n)"
    using lk by (simp add: new_file_def)
  with ai a0 have i0: "0 \<in> set new'" "h' ! 0 = new_file ''.backup/init'' 488 ''a''"
    by (simp_all add: new_file_def)
  from A no obtain b where b: "b \<in> set [0, 1]" "name (?H ! b) = ''gone''"
    and bi: "(''gone'' \<notin> names ?H [2, 3, 4]
                     \<or> (\<exists>a_n \<in> set [2, 3, 4]. name (?H ! a_n) = ''gone'' \<and> map_of (by_name ?H [2, 3, 4]) ''gone'' = Some a_n
                          \<and> content (?H ! b) \<noteq> content (?H ! a_n)))
                    \<longrightarrow> b \<in> set new' \<and> h' ! b = (?H ! b)\<lparr> name := ''.backup/'' @ ''gone'' \<rparr>"
    by blast
  from b have b1: "b = 1" by (auto simp: new_file_def)
  have "''gone'' \<notin> names ?H [2, 3, 4]" by (simp add: nn)
  with bi b1 have i1: "1 \<in> set new'" "h' ! 1 = new_file ''.backup/gone'' 420 ''b''"
    by (simp_all add: new_file_def)
  have s: "set added = {''zz'', ''aa''}" using B(2) unfolding no nn by simp
  have l: "h' ! last new' = new_file ''.backup/.rmlist'' 0 (concat (map (\<lambda>n. n @ [CHR 0x00]) added))"
    using C by (simp add: new_file_def)
  from r i0 i1 B(1) s l show ?thesis by blast
qed

subsection \<open>Prepatched image adoption\<close>

lemma report_issues_1:
  "report_issues 1 issues p =
     (if issues ! 0 \<noteq> [] then [issues ! 0] else [],
      if issues ! 1 @ issues ! 2 \<noteq> [] then Inl (IncompatibleImage (issues ! 1 @ issues ! 2)) else Inr p)"
  by (simp add: report_issues_def MIN_LEVEL_def MAX_LEVEL_def Let_def upto.simps)




lemma all_less_3: "(\<forall>lvl<(3::nat). P lvl) = (P 0 \<and> P 1 \<and> P 2)"
proof -
  have "\<And>lvl. (lvl < (3::nat)) = (lvl = 0 \<or> lvl = 1 \<or> lvl = 2)" by arith
  then show ?thesis by auto
qed






subsection \<open>Prepatched image adoption: level-0 divergences\<close>

lemma fields_added_none:
  "set (dict_keys new_header) \<subseteq> set (dict_keys old_header) \<Longrightarrow> fields_added old_header new_header issues = issues"
proof -
  assume a: "set (dict_keys new_header) \<subseteq> set (dict_keys old_header)"
  have "filter (\<lambda>k. k \<notin> set (dict_keys old_header)) (dict_keys new_header) = []"
    using a by (auto simp: filter_empty_conv)
  then show ?thesis by (simp add: fields_added_def)
qed

lemma fields_removed_none:
  "set (dict_keys old_header) \<subseteq> set (dict_keys new_header) \<Longrightarrow> fields_removed old_header new_header issues = issues"
proof -
  assume a: "set (dict_keys old_header) \<subseteq> set (dict_keys new_header)"
  have "filter (\<lambda>k. k \<notin> set (dict_keys new_header)) (dict_keys old_header) = []"
    using a by (auto simp: filter_empty_conv)
  then show ?thesis by (simp add: fields_removed_def)
qed

lemma field_changed_level0:
  assumes "fst kv \<notin> {''id'', ''os_version''} \<longrightarrow> map_of new_header (fst kv) = Some (snd kv)"
  shows "field_changed new_header kv [a, b, c] = [a @ level0_divergences [kv] new_header, b, c]"
proof (cases "map_of new_header (fst kv)")
  case None
  then show ?thesis by (simp add: field_changed_def level0_divergences_def)
next
  case (Some v')
  show ?thesis
  proof (cases "snd kv = v'")
    case True
    with Some show ?thesis by (simp add: field_changed_def level0_divergences_def)
  next
    case False
    with Some assms have k: "fst kv \<in> {''id'', ''os_version''}" by auto
    then have "field_level (fst kv) = 0" by (simp add: field_level_def)
    with Some False k show ?thesis by (simp add: field_changed_def level0_divergences_def add_issue_def)
  qed
qed

lemma level0_divergences_Cons:
  "level0_divergences (kv # kvs) new_header = level0_divergences [kv] new_header @ level0_divergences kvs new_header"
  by (simp add: level0_divergences_def)

lemma fold_field_changed_level0:
  assumes "\<forall>kv \<in> set kvs. fst kv \<notin> {''id'', ''os_version''} \<longrightarrow> map_of new_header (fst kv) = Some (snd kv)"
  shows "fold (field_changed new_header) kvs [a, b, c] = [a @ level0_divergences kvs new_header, b, c]"
  using assms
proof (induction kvs arbitrary: a)
  case Nil
  show ?case by (simp add: level0_divergences_def)
next
  case (Cons kv kvs)
  from Cons.prems have 1: "fst kv \<notin> {''id'', ''os_version''} \<longrightarrow> map_of new_header (fst kv) = Some (snd kv)"
    and 2: "\<forall>kv \<in> set kvs. fst kv \<notin> {''id'', ''os_version''} \<longrightarrow> map_of new_header (fst kv) = Some (snd kv)"
    by simp_all
  have "fold (field_changed new_header) (kv # kvs) [a, b, c]
        = fold (field_changed new_header) kvs [a @ level0_divergences [kv] new_header, b, c]"
    by (simp add: field_changed_level0 [OF 1])
  also have "\<dots> = [(a @ level0_divergences [kv] new_header) @ level0_divergences kvs new_header, b, c]"
    by (rule Cons.IH [OF 2])
  finally show ?case by (simp add: level0_divergences_Cons [of kv kvs new_header])
qed

lemma fields_changed_level0:
  assumes "set (dict_keys old_header) \<subseteq> set (dict_keys new_header)"
    and "\<forall>kv \<in> set old_header. fst kv \<notin> {''id'', ''os_version''} \<longrightarrow> map_of new_header (fst kv) = Some (snd kv)"
  shows "fields_changed old_header new_header [a, b, c] = [a @ level0_divergences old_header new_header, b, c]"
proof -
  have "filter (\<lambda>kv. fst kv \<in> set (dict_keys new_header)) old_header = old_header"
    using assms(1) by (auto simp: filter_id_conv dict_keys_def)
  then show ?thesis
    by (simp add: fields_changed_def fold_field_changed_level0 [OF assms(2)])
qed

lemma section_issue_same:
  "(snd attr img = None) = (snd attr p = None) \<Longrightarrow> section_issue img p attr issues = issues"
  by (cases "snd attr p"; cases "snd attr img") (simp_all add: section_issue_def)

lemma sections_none:
  assumes "(kernel img = None) = (kernel p = None)"
    and "(second img = None) = (second p = None)"
    and "(recovery_dtbo img = None) = (recovery_dtbo p = None)"
    and "(dtb img = None) = (dtb p = None)"
    and "(bootconfig img = None) = (bootconfig p = None)"
  shows "fold (section_issue img p) sections issues = issues"
  by (simp add: sections_def section_issue_same assms)

lemma collect_issues_level0:
  assumes keys: "set (dict_keys (header p)) = set (dict_keys (header img))"
    and vals: "\<forall>kv \<in> set (header img). fst kv \<notin> {''id'', ''os_version''} \<longrightarrow> map_of (header p) (fst kv) = Some (snd kv)"
    and s1: "(kernel img = None) = (kernel p = None)"
    and s2: "(second img = None) = (second p = None)"
    and s3: "(recovery_dtbo img = None) = (recovery_dtbo p = None)"
    and s4: "(dtb img = None) = (dtb p = None)"
    and s5: "(bootconfig img = None) = (bootconfig p = None)"
    and rd: "length (ramdisks img) \<le> length (ramdisks p)"
    and kmi: "kernel img \<noteq> None \<longrightarrow>
                \<not> isl (get_kmi_version rc vs img) \<and> get_kmi_version rc vs p = get_kmi_version rc vs img"
  shows "collect_issues rc vs img p = Inr [level0_divergences (header img) (header p), [], []]"
proof -
  have a: "fields_added (header img) (header p) no_issues = [[], [], []]"
    using keys by (simp add: fields_added_none no_issues_def)
  have b: "fields_removed (header img) (header p) [[], [], []] = [[], [], []]"
    using keys by (simp add: fields_removed_none)
  have c: "fields_changed (header img) (header p) [[], [], []] = [level0_divergences (header img) (header p), [], []]"
    using fields_changed_level0 [OF _ vals, of "[]" "[]" "[]"] keys by simp
  have d: "fold (section_issue img p) sections [level0_divergences (header img) (header p), [], []]
           = [level0_divergences (header img) (header p), [], []]"
    by (rule sections_none [OF s1 s2 s3 s4 s5])
  show ?thesis
  proof (cases "kernel img = None")
    case True
    then show ?thesis using rd by (simp add: collect_issues_def a b c d)
  next
    case False
    with kmi obtain v where "get_kmi_version rc vs img = Inr v" "get_kmi_version rc vs p = Inr v"
      by (cases "get_kmi_version rc vs img") auto
    with False show ?thesis using rd by (simp add: collect_issues_def a b c d)
  qed
qed

lemma level0_divergences_empty:
  assumes keys: "set (dict_keys old_header) \<subseteq> set (dict_keys new_header)"
  shows "(level0_divergences old_header new_header = []) =
         (\<forall>kv \<in> set old_header. fst kv \<in> {''id'', ''os_version''} \<longrightarrow> map_of new_header (fst kv) = Some (snd kv))"
proof -
  have ex: "\<And>kv. kv \<in> set old_header \<Longrightarrow> \<exists>v'. map_of new_header (fst kv) = Some v'"
  proof -
    fix kv assume "kv \<in> set old_header"
    then have "fst kv \<in> set (dict_keys new_header)" using keys by (auto simp: dict_keys_def)
    then have "fst kv \<in> dom (map_of new_header)" by (simp add: dom_map_of_conv_image_fst dict_keys_def)
    then show "\<exists>v'. map_of new_header (fst kv) = Some v'" by auto
  qed
  show ?thesis
  proof
    assume e: "level0_divergences old_header new_header = []"
    show "\<forall>kv \<in> set old_header. fst kv \<in> {''id'', ''os_version''} \<longrightarrow> map_of new_header (fst kv) = Some (snd kv)"
    proof (intro ballI impI)
      fix kv assume kv: "kv \<in> set old_header" and k: "fst kv \<in> {''id'', ''os_version''}"
      from ex [OF kv] obtain v' where v': "map_of new_header (fst kv) = Some v'" by blast
      from e kv have "(case map_of new_header (fst kv) of None \<Rightarrow> []
             | Some v' \<Rightarrow> if fst kv \<in> {''id'', ''os_version''} \<and> snd kv \<noteq> v'
                            then [FieldChanged (fst kv) (snd kv) v'] else []) = []"
        by (simp add: level0_divergences_def)
      with v' k have "snd kv = v'" by (simp split: if_splits)
      with v' show "map_of new_header (fst kv) = Some (snd kv)" by simp
    qed
  next
    assume r: "\<forall>kv \<in> set old_header. fst kv \<in> {''id'', ''os_version''} \<longrightarrow> map_of new_header (fst kv) = Some (snd kv)"
    have "\<And>kv. kv \<in> set old_header \<Longrightarrow> (case map_of new_header (fst kv) of None \<Rightarrow> []
             | Some v' \<Rightarrow> if fst kv \<in> {''id'', ''os_version''} \<and> snd kv \<noteq> v'
                            then [FieldChanged (fst kv) (snd kv) v'] else []) = []"
    proof -
      fix kv assume kv: "kv \<in> set old_header"
      from r kv have i: "fst kv \<in> {''id'', ''os_version''} \<longrightarrow> map_of new_header (fst kv) = Some (snd kv)"
        by blast
      show "(case map_of new_header (fst kv) of None \<Rightarrow> []
             | Some v' \<Rightarrow> if fst kv \<in> {''id'', ''os_version''} \<and> snd kv \<noteq> v'
                            then [FieldChanged (fst kv) (snd kv) v'] else []) = []"
        using i by (cases "map_of new_header (fst kv)") auto
    qed
    then show "level0_divergences old_header new_header = []" by (simp add: level0_divergences_def)
  qed
qed

text \<open>
  C2, as the code has it. Let the prepatched image diverge from the original only at
  level 0: both headers have the same fields, with the same values except for \<^verbatim>\<open>id\<close> and
  \<^verbatim>\<open>os_version\<close>; each optional section is present in both or absent in both; the
  prepatched image has at least as many ramdisks; and, when the original has a kernel,
  \<^verbatim>\<open>_get_kmi_version\<close> returns for both images, with the same value. Then the issues
  collected are exactly the level-0 divergences, and \<^verbatim>\<open>patch\<close> at the default fatal level
  (\<^verbatim>\<open>--ignore-prepatched-compat\<close> not given, level 1) returns the prepatched image; the
  level-0 divergences are warnings: the callback is called exactly once, with all of them,
  unless there is none, and there is none exactly when the two headers agree on \<^verbatim>\<open>id\<close>
  and \<^verbatim>\<open>os_version\<close>.
\<close>

theorem prepatched_level0_default:
  assumes "set (dict_keys (header p)) = set (dict_keys (header img))"
    and "\<forall>kv \<in> set (header img). fst kv \<notin> {''id'', ''os_version''} \<longrightarrow> map_of (header p) (fst kv) = Some (snd kv)"
    and "(kernel img = None) = (kernel p = None)"
    and "(second img = None) = (second p = None)"
    and "(recovery_dtbo img = None) = (recovery_dtbo p = None)"
    and "(dtb img = None) = (dtb p = None)"
    and "(bootconfig img = None) = (bootconfig p = None)"
    and "length (ramdisks img) \<le> length (ramdisks p)"
    and "kernel img \<noteq> None \<longrightarrow>
           \<not> isl (get_kmi_version rc vs img) \<and> get_kmi_version rc vs p = get_kmi_version rc vs img"
  shows "collect_issues rc vs img p = Inr [level0_divergences (header img) (header p), [], []]
         \<and> PrepatchedImage_patch (fatal_level_of_args 0) rc vs img p =
             (if level0_divergences (header img) (header p) = [] then []
              else [level0_divergences (header img) (header p)], Inr p)
         \<and> ((level0_divergences (header img) (header p) = []) =
              (\<forall>kv \<in> set (header img). fst kv \<in> {''id'', ''os_version''} \<longrightarrow>
                 map_of (header p) (fst kv) = Some (snd kv)))"
proof (intro conjI)
  show c: "collect_issues rc vs img p = Inr [level0_divergences (header img) (header p), [], []]"
    by (rule collect_issues_level0 [OF assms])
  show "PrepatchedImage_patch (fatal_level_of_args 0) rc vs img p =
             (if level0_divergences (header img) (header p) = [] then []
              else [level0_divergences (header img) (header p)], Inr p)"
    by (simp add: PrepatchedImage_patch_def c fatal_level_of_args_def report_issues_1)
  show "(level0_divergences (header img) (header p) = []) =
              (\<forall>kv \<in> set (header img). fst kv \<in> {''id'', ''os_version''} \<longrightarrow>
                 map_of (header p) (fst kv) = Some (snd kv))"
    using assms(1) by (simp add: level0_divergences_empty)
qed

theorem prepatched_level0_default_witness:
  "PrepatchedImage_patch (fatal_level_of_args 0) (\<lambda>b. Inr b) (\<lambda>d. Some (''5.10'', ''android13'', ''4''))
     \<lparr> header = [(''id'', ''a''), (''os_version'', ''13''), (''cmdline'', ''c'')], kernel = Some ''k'',
       second = None, recovery_dtbo = None, dtb = None, bootconfig = None, ramdisks = [] \<rparr>
     \<lparr> header = [(''os_version'', ''14''), (''id'', ''b''), (''cmdline'', ''c'')], kernel = Some ''l'',
       second = None, recovery_dtbo = None, dtb = None, bootconfig = None, ramdisks = [] \<rparr>
   = ([[FieldChanged ''id'' ''a'' ''b'', FieldChanged ''os_version'' ''13'' ''14'']],
      Inr \<lparr> header = [(''os_version'', ''14''), (''id'', ''b''), (''cmdline'', ''c'')], kernel = Some ''l'',
       second = None, recovery_dtbo = None, dtb = None, bootconfig = None, ramdisks = [] \<rparr>)"
  using prepatched_level0_default [where rc = "\<lambda>b. Inr b" and vs = "\<lambda>d. Some (''5.10'', ''android13'', ''4'')"
     and img = "\<lparr> header = [(''id'', ''a''), (''os_version'', ''13''), (''cmdline'', ''c'')], kernel = Some ''k'',
       second = None, recovery_dtbo = None, dtb = None, bootconfig = None, ramdisks = [] \<rparr>"
     and p = "\<lparr> header = [(''os_version'', ''14''), (''id'', ''b''), (''cmdline'', ''c'')], kernel = Some ''l'',
       second = None, recovery_dtbo = None, dtb = None, bootconfig = None, ramdisks = [] \<rparr>"]
  by (simp add: dict_keys_def get_kmi_version_def level0_divergences_def insert_commute)

theorem prepatched_id_change_warns_counterexample:
  "PrepatchedImage_patch (fatal_level_of_args 0) (\<lambda>b. Inr b) (\<lambda>d. None)
     \<lparr> header = [(''id'', ''a'')], kernel = None, second = None, recovery_dtbo = None,
       dtb = None, bootconfig = None, ramdisks = [] \<rparr>
     \<lparr> header = [(''id'', ''b'')], kernel = None, second = None, recovery_dtbo = None,
       dtb = None, bootconfig = None, ramdisks = [] \<rparr>
   = ([[FieldChanged ''id'' ''a'' ''b'']],
      Inr \<lparr> header = [(''id'', ''b'')], kernel = None, second = None, recovery_dtbo = None,
       dtb = None, bootconfig = None, ramdisks = [] \<rparr>)"
  by (simp add: PrepatchedImage_patch_def fatal_level_of_args_def report_issues_1
      collect_issues_def fields_added_def fields_removed_def fields_changed_def
      field_changed_def field_level_def dict_keys_def no_issues_def add_issue_def sections_def
      section_issue_def)

text \<open>
  The exception of \<^verbatim>\<open>_get_kmi_version\<close>: the original has a kernel and the prepatched image
  has none, and the \<^verbatim>\<open>compression\<close> module refuses the empty input with a
  \<^verbatim>\<open>ValueError\<close>. The fallback is \<^verbatim>\<open>None\<close>, the search raises \<^verbatim>\<open>TypeError\<close>, and no
  warning or compatibility error is reported.
\<close>

lemma prepatched_kernel_removed_raises:
  assumes "kernel img \<noteq> None" and "kernel p = None" and "rc [] = Inl ValueError"
    and "\<not> isl (get_kmi_version rc vs img)"
  shows "PrepatchedImage_patch fatal_level rc vs img p = ([], Inl TypeError)"
proof -
  from assms(4) obtain v where v: "get_kmi_version rc vs img = Inr v"
    by (cases "get_kmi_version rc vs img") auto
  have "get_kmi_version rc vs p = Inl TypeError"
    using assms(2,3) by (simp add: get_kmi_version_def is_ValueError_def)
  with v assms(1) show ?thesis
    by (simp add: PrepatchedImage_patch_def collect_issues_def)
qed

subsection \<open>Magisk injection\<close>

lemma apply_magisk_backup_store:
  fixes h :: store and old new :: "addr list"
  assumes wf: "\<forall>a \<in> set old. a < length h"
  defines "ns \<equiv> deleted_names h old new @ changed_names h old new"
  shows "\<exists>h'. apply_magisk_backup h old new =
                 Inr (h' @ [new_file ''.backup/.rmlist'' 0 (rmlist_data (added_names h old new))],
                      new @ [length h] @ map (\<lambda>n. the (map_of (by_name h old) n)) ns @ [Suc (length h)])
           \<and> length h' = Suc (length h)
           \<and> h' ! length h = new_directory ''.backup'' 0
           \<and> (\<forall>n \<in> set ns. the (map_of (by_name h old) n) \<in> set old
                  \<and> name (h ! the (map_of (by_name h old) n)) = n
                  \<and> h' ! the (map_of (by_name h old) n)
                      = (h ! the (map_of (by_name h old) n))\<lparr> name := ''.backup/'' @ n \<rparr>)
           \<and> (\<forall>a < length h. a \<notin> (\<lambda>n. the (map_of (by_name h old) n)) ` set ns \<longrightarrow> h' ! a = h ! a)"
proof -
  let ?obn = "by_name h old"
  let ?h1 = "h @ [new_directory ''.backup'' 0]"
  have look: "\<And>n. n \<in> set ns \<Longrightarrow> \<exists>a. map_of ?obn n = Some a \<and> a \<in> set old \<and> a < length h \<and> name (h ! a) = n"
  proof -
    fix n assume "n \<in> set ns"
    then have "n \<in> set (dict_keys ?obn)" unfolding ns_def by (rule deleted_changed_keys)
    then obtain a where a: "map_of ?obn n = Some a" using by_name_lookup_ex by blast
    from by_name_lookup [OF a] wf have "a \<in> set old" "a < length h" "name (h ! a) = n" by auto
    with a show "\<exists>a. map_of ?obn n = Some a \<and> a \<in> set old \<and> a < length h \<and> name (h ! a) = n"
      by blast
  qed
  have pre: "\<forall>n \<in> set ns. \<exists>a. map_of ?obn n = Some a \<and> a < length ?h1 \<and> name (?h1 ! a) = n"
  proof
    fix n assume "n \<in> set ns"
    from look [OF this] obtain a where "map_of ?obn n = Some a" "a < length h" "name (h ! a) = n"
      by blast
    then show "\<exists>a. map_of ?obn n = Some a \<and> a < length ?h1 \<and> name (?h1 ! a) = n"
      by (auto simp: nth_append)
  qed
  have d: "distinct ns" unfolding ns_def by (rule deleted_changed_distinct)
  from backup_loop_result [OF d pre, of "new @ [length h]"] obtain h' where h':
    "backup_loop ?obn ns (?h1, new @ [length h]) = Inr (h', (new @ [length h]) @ map (\<lambda>n. the (map_of ?obn n)) ns)"
    "length h' = length ?h1"
    "\<forall>n \<in> set ns. h' ! the (map_of ?obn n) = (?h1 ! the (map_of ?obn n))\<lparr> name := ''.backup/'' @ n \<rparr>"
    "\<forall>a. a \<notin> (\<lambda>n. the (map_of ?obn n)) ` set ns \<longrightarrow> h' ! a = ?h1 ! a"
    by blast
  have lt: "\<And>n. n \<in> set ns \<Longrightarrow> the (map_of ?obn n) < length h"
    using look by fastforce
  have 1: "apply_magisk_backup h old new =
             Inr (h' @ [new_file ''.backup/.rmlist'' 0 (rmlist_data (added_names h old new))],
                  new @ [length h] @ map (\<lambda>n. the (map_of ?obn n)) ns @ [Suc (length h)])"
    using h'(1) h'(2) by (simp add: apply_magisk_backup_def append_new_def ns_def Let_def)
  have 2: "length h' = Suc (length h)" using h'(2) by simp
  have "length h \<notin> (\<lambda>n. the (map_of ?obn n)) ` set ns" using lt by fastforce
  with h'(4) have 3: "h' ! length h = new_directory ''.backup'' 0" by simp
  have 4: "\<forall>n \<in> set ns. the (map_of ?obn n) \<in> set old
                  \<and> name (h ! the (map_of ?obn n)) = n
                  \<and> h' ! the (map_of ?obn n) = (h ! the (map_of ?obn n))\<lparr> name := ''.backup/'' @ n \<rparr>"
  proof
    fix n assume n: "n \<in> set ns"
    from look [OF n] obtain a where a: "map_of ?obn n = Some a" "a \<in> set old" "a < length h" "name (h ! a) = n"
      by blast
    from h'(3) n have "h' ! the (map_of ?obn n) = (?h1 ! the (map_of ?obn n))\<lparr> name := ''.backup/'' @ n \<rparr>"
      by blast
    with a show "the (map_of ?obn n) \<in> set old
                  \<and> name (h ! the (map_of ?obn n)) = n
                  \<and> h' ! the (map_of ?obn n) = (h ! the (map_of ?obn n))\<lparr> name := ''.backup/'' @ n \<rparr>"
      by (simp add: nth_append)
  qed
  have 5: "\<forall>a < length h. a \<notin> (\<lambda>n. the (map_of ?obn n)) ` set ns \<longrightarrow> h' ! a = h ! a"
    using h'(4) by (simp add: nth_append)
  from 1 2 3 4 5 show ?thesis by blast
qed

lemma apply_magisk_backup_names:
  fixes h :: store and old new :: "addr list"
  assumes wf_old: "\<forall>a \<in> set old. a < length h"
    and wf_new: "\<forall>a \<in> set new. a < length h"
    and del: "deleted_names h old new = []"
    and moved: "\<forall>n \<in> set (changed_names h old new). \<forall>a \<in> set old. name (h ! a) = n \<longrightarrow> a \<notin> set new"
  shows "\<exists>h' es'. apply_magisk_backup h old new = Inr (h', es')
           \<and> length h' = length h + 2
           \<and> (\<forall>a \<in> set es'. a < length h')
           \<and> map (\<lambda>a. name (h' ! a)) es' =
               map (\<lambda>a. name (h ! a)) new @ [''.backup'']
               @ map (\<lambda>n. ''.backup/'' @ n) (changed_names h old new) @ [''.backup/.rmlist'']"
proof -
  let ?ns = "changed_names h old new"
  let ?look = "\<lambda>n. the (map_of (by_name h old) n)"
  let ?R = "new_file ''.backup/.rmlist'' 0 (rmlist_data (added_names h old new))"
  from apply_magisk_backup_store [OF wf_old, of new] del obtain h' where h':
    "apply_magisk_backup h old new = Inr (h' @ [?R], new @ [length h] @ map ?look ?ns @ [Suc (length h)])"
    "length h' = Suc (length h)"
    "h' ! length h = new_directory ''.backup'' 0"
    "\<forall>n \<in> set ?ns. ?look n \<in> set old \<and> name (h ! ?look n) = n
         \<and> h' ! ?look n = (h ! ?look n)\<lparr> name := ''.backup/'' @ n \<rparr>"
    "\<forall>a < length h. a \<notin> ?look ` set ?ns \<longrightarrow> h' ! a = h ! a"
    by auto
  let ?h = "h' @ [?R]"
  let ?es = "new @ [length h] @ map ?look ?ns @ [Suc (length h)]"
  have lt: "\<And>n. n \<in> set ?ns \<Longrightarrow> ?look n < length h" using h'(4) wf_old by blast
  have a1: "map (\<lambda>a. name (?h ! a)) new = map (\<lambda>a. name (h ! a)) new"
  proof (rule map_cong [OF refl])
    fix a assume a: "a \<in> set new"
    with wf_new have l: "a < length h" by blast
    have "a \<notin> ?look ` set ?ns"
    proof
      assume "a \<in> ?look ` set ?ns"
      then obtain n where n: "n \<in> set ?ns" "a = ?look n" by blast
      from h'(4) n have "a \<in> set old" "name (h ! a) = n" by simp_all
      with moved n(1) have "a \<notin> set new" by blast
      with a show False by simp
    qed
    with h'(5) l have "h' ! a = h ! a" by blast
    with l h'(2) show "name (?h ! a) = name (h ! a)" by (simp add: nth_append)
  qed
  have a2: "name (?h ! length h) = ''.backup''"
    using h'(2,3) by (simp add: nth_append new_directory_def)
  have a3: "map (\<lambda>a. name (?h ! a)) (map ?look ?ns) = map (\<lambda>n. ''.backup/'' @ n) ?ns"
  proof -
    have "\<And>n. n \<in> set ?ns \<Longrightarrow> name (?h ! ?look n) = ''.backup/'' @ n"
    proof -
      fix n assume n: "n \<in> set ?ns"
      from lt [OF n] h'(2) have "?h ! ?look n = h' ! ?look n" by (simp add: nth_append)
      with h'(4) n show "name (?h ! ?look n) = ''.backup/'' @ n" by simp
    qed
    then show ?thesis by simp
  qed
  have a4: "name (?h ! Suc (length h)) = ''.backup/.rmlist''"
    using h'(2) by (simp add: nth_append new_file_def)
  have nm: "map (\<lambda>a. name (?h ! a)) ?es =
               map (\<lambda>a. name (h ! a)) new @ [''.backup'']
               @ map (\<lambda>n. ''.backup/'' @ n) ?ns @ [''.backup/.rmlist'']"
    using a1 a2 a3 a4 by simp
  have len: "length ?h = length h + 2" using h'(2) by simp
  have bound: "\<forall>a \<in> set ?es. a < length ?h"
    using wf_new lt h'(2) by (auto simp: less_Suc_eq)
  from h'(1) len bound nm show ?thesis by blast
qed

lemma map_nth_append_upt:
  "map (\<lambda>a. f ((A @ X) ! a)) [length A..<length A + length X] = map f X"
  by (rule nth_equalityI) (simp_all add: nth_append)

lemma map_nth_filter_upt:
  "map (\<lambda>a. f (L ! a)) (filter (\<lambda>a. P (f (L ! a))) [0..<length L]) = filter P (map f L)"
proof -
  have "map f L = map (\<lambda>a. f (L ! a)) [0..<length L]"
    by (rule nth_equalityI) simp_all
  then show ?thesis by (simp add: filter_map comp_def)
qed

lemma add_xz_files_result:
  "\<forall>f \<in> set fs. z (fst f) \<noteq> None \<Longrightarrow>
   \<exists>X. add_xz_files xz z fs s =
          Inr (fst s @ X, snd s @ [length (fst s)..<length (fst s) + length X])
        \<and> map name X = map (\<lambda>f. ''overlay.d/sbin/'' @ snd f) fs"
proof (induction fs arbitrary: s)
  case Nil
  then show ?case by simp
next
  case (Cons f fs)
  obtain src tgt where f: "f = (src, tgt)" by (cases f)
  from Cons.prems f obtain d where d: "z src = Some d" by auto
  let ?e = "new_file (''overlay.d/sbin/'' @ tgt) 420 (xz d)"
  from Cons.prems have "\<forall>f \<in> set fs. z (fst f) \<noteq> None" by simp
  from Cons.IH [OF this, of "append_new s ?e"]
  obtain X where X:
    "add_xz_files xz z fs (append_new s ?e) =
       Inr (fst (append_new s ?e) @ X,
            snd (append_new s ?e) @ [length (fst (append_new s ?e))..<length (fst (append_new s ?e)) + length X])"
    "map name X = map (\<lambda>f. ''overlay.d/sbin/'' @ snd f) fs"
    by blast
  have u: "[length (fst s)..<length (fst s) + length (?e # X)]
           = length (fst s) # [Suc (length (fst s))..<Suc (length (fst s)) + length X]"
    using upt_conv_Cons [of "length (fst s)" "length (fst s) + Suc (length X)"] by simp
  have 1: "add_xz_files xz z (f # fs) s =
          Inr (fst s @ (?e # X), snd s @ [length (fst s)..<length (fst s) + length (?e # X)])"
    unfolding u using X(1) f d by (simp add: zip_open_def append_new_def)
  have 2: "map name (?e # X) = map (\<lambda>f. ''overlay.d/sbin/'' @ snd f) (f # fs)"
    using X(2) f by (simp add: new_file_def)
  from 1 2 show ?case by blast
qed

lemma distinct_subset_single:
  "distinct xs \<Longrightarrow> set xs \<subseteq> {c} \<Longrightarrow> xs = [] \<or> xs = [c]"
proof (cases xs)
  case Nil
  then show ?thesis by simp
next
  case (Cons x ys)
  assume d: "distinct xs" and s: "set xs \<subseteq> {c}"
  from s Cons have x: "x = c" and "set ys \<subseteq> {c}" by simp_all
  moreover from d Cons x have "c \<notin> set ys" by simp
  ultimately have "ys = []" by (cases ys) auto
  with Cons x show ?thesis by simp
qed

lemma magisk_entries:
  fixes L X :: "cpio_entry list" and init_data :: string
  assumes dl: "distinct (map name L)"
    and dj: "set (map name L) \<inter> {''overlay.d'', ''overlay.d/sbin'', ''.backup'', ''.backup/init'',
               ''.backup/.rmlist'', ''.backup/.magisk''} = {}"
    and djx: "set (map name L) \<inter> set (map name X) = {}"
    and dx: "distinct (map name X)"
    and xn: "set (map name X) \<inter> {''overlay.d'', ''overlay.d/sbin'', ''init'', ''.backup'', ''.backup/init'',
               ''.backup/.rmlist'', ''.backup/.magisk''} = {}"
  defines "h3 \<equiv> L @ [new_directory ''overlay.d'' 488, new_directory ''overlay.d/sbin'' 488,
                      new_file ''init'' 488 init_data] @ X"
    and "es3 \<equiv> filter (\<lambda>a. name (L ! a) \<noteq> ''init'') [0..<length L]
                 @ [length L, length L + 1, length L + 2]
                 @ [length L + 3..<length L + 3 + length X]"
  shows "\<exists>h4 es4. apply_magisk_backup h3 [0..<length L] es3 = Inr (h4, es4)
           \<and> (\<forall>a \<in> set es4. a < length h4)
           \<and> distinct (map (\<lambda>a. name (h4 ! a)) es4)
           \<and> ''.backup/.magisk'' \<notin> set (map (\<lambda>a. name (h4 ! a)) es4)"
proof -
  let ?old = "[0..<length L]"
  let ?keep = "filter (\<lambda>a. name (L ! a) \<noteq> ''init'') [0..<length L]"
  let ?nm = "\<lambda>a. name (h3 ! a)"
  have low: "\<And>a. a < length L \<Longrightarrow> h3 ! a = L ! a" by (simp add: h3_def nth_append)
  have p1: "map ?nm ?keep = filter (\<lambda>n. n \<noteq> ''init'') (map name L)"
  proof -
    have "map ?nm ?keep = map (\<lambda>a. name (L ! a)) ?keep"
      by (rule map_cong [OF refl]) (simp add: low)
    also have "\<dots> = filter (\<lambda>n. n \<noteq> ''init'') (map name L)"
      by (rule map_nth_filter_upt)
    finally show ?thesis .
  qed
  have p2: "map ?nm [length L, length L + 1, length L + 2] = [''overlay.d'', ''overlay.d/sbin'', ''init'']"
    by (simp add: h3_def nth_append new_directory_def new_file_def)
  define A where "A = L @ [new_directory ''overlay.d'' 488, new_directory ''overlay.d/sbin'' 488,
                      new_file ''init'' 488 init_data]"
  have hA: "h3 = A @ X" by (simp add: h3_def A_def)
  have lA: "length L + 3 = length A" by (simp add: A_def)
  have p3: "map ?nm [length L + 3..<length L + 3 + length X] = map name X"
    unfolding hA lA by (rule map_nth_append_upt)
  have names3: "map ?nm es3 = filter (\<lambda>n. n \<noteq> ''init'') (map name L)
                  @ [''overlay.d'', ''overlay.d/sbin'', ''init''] @ map name X"
    unfolding es3_def map_append p1 p2 p3 ..
  have names_old: "map ?nm ?old = map name L"
    by (rule nth_equalityI) (simp_all add: low)
  have dist3: "distinct (map ?nm es3)"
    unfolding names3 using dl dj djx dx xn by auto
  have wf_old: "\<forall>a \<in> set ?old. a < length h3" by (simp add: h3_def)
  have wf_new: "\<forall>a \<in> set es3. a < length h3" by (auto simp: h3_def es3_def)
  have keep_new: "\<And>a. a < length L \<Longrightarrow> name (L ! a) \<noteq> ''init'' \<Longrightarrow> a \<in> set es3"
    by (simp add: es3_def)
  have old_new: "\<And>a. a \<in> set es3 \<Longrightarrow> a < length L \<Longrightarrow> name (L ! a) \<noteq> ''init''"
    by (auto simp: es3_def)
  have del: "deleted_names h3 ?old es3 = []"
  proof -
    have "\<forall>k \<in> set (dict_keys (by_name h3 ?old)). k \<in> set (dict_keys (by_name h3 es3))"
    proof
      fix k assume "k \<in> set (dict_keys (by_name h3 ?old))"
      then have "k \<in> set (map ?nm ?old)" by (simp add: by_name_keys)
      then have k: "k \<in> set (map name L)" by (simp only: names_old)
      have "k \<in> set (map ?nm es3)" unfolding names3 using k by auto
      then show "k \<in> set (dict_keys (by_name h3 es3))" by (simp add: by_name_keys)
    qed
    then show ?thesis by (simp add: deleted_names_def filter_empty_conv)
  qed
  have chg: "set (changed_names h3 ?old es3) \<subseteq> {''init''}"
  proof
    fix n assume n: "n \<in> set (changed_names h3 ?old es3)"
    show "n \<in> {''init''}"
    proof (rule ccontr)
      assume "n \<notin> {''init''}"
      then have ni: "n \<noteq> ''init''" by simp
      from n obtain a b where ab: "map_of (by_name h3 ?old) n = Some a" "map_of (by_name h3 es3) n = Some b"
        and c: "content (h3 ! a) \<noteq> content (h3 ! b)"
        unfolding changed_names_def
        by (cases "map_of (by_name h3 ?old) n"; cases "map_of (by_name h3 es3) n") simp_all
      from by_name_lookup [OF ab(1)] have a: "a < length L" "name (h3 ! a) = n" by simp_all
      from by_name_lookup [OF ab(2)] have b: "b \<in> set es3" "name (h3 ! b) = n" by simp_all
      from a ni low have "a \<in> set es3" by (simp add: keep_new)
      moreover from dist3 have "inj_on ?nm (set es3)" by (simp add: distinct_map)
      ultimately have "a = b" using b a(2) by (auto dest: inj_onD)
      with c show False by simp
    qed
  qed
  have moved: "\<forall>n \<in> set (changed_names h3 ?old es3). \<forall>a \<in> set ?old. name (h3 ! a) = n \<longrightarrow> a \<notin> set es3"
  proof (intro ballI impI)
    fix n a assume n: "n \<in> set (changed_names h3 ?old es3)" and a: "a \<in> set ?old" and e: "name (h3 ! a) = n"
    from chg n have "n = ''init''" by blast
    with a e low have "a < length L" "name (L ! a) = ''init''" by simp_all
    with old_new show "a \<notin> set es3" by blast
  qed
  from apply_magisk_backup_names [OF wf_old wf_new del moved] obtain h4 es4 where r:
    "apply_magisk_backup h3 ?old es3 = Inr (h4, es4)"
    "\<forall>a \<in> set es4. a < length h4"
    "map (\<lambda>a. name (h4 ! a)) es4 =
       map ?nm es3 @ [''.backup'']
       @ map (\<lambda>n. ''.backup/'' @ n) (changed_names h3 ?old es3) @ [''.backup/.rmlist'']"
    by blast
  have "distinct (changed_names h3 ?old es3)"
    using deleted_changed_distinct [of h3 ?old es3] by simp
  from distinct_subset_single [OF this chg]
  have c2: "changed_names h3 ?old es3 = [] \<or> changed_names h3 ?old es3 = [''init'']" .
  define N where "N = map ?nm es3"
  have dN: "distinct N" using dist3 by (simp add: N_def)
  have out: "''.backup'' \<notin> set N" "''.backup/init'' \<notin> set N" "''.backup/.rmlist'' \<notin> set N"
    "''.backup/.magisk'' \<notin> set N"
    unfolding N_def names3 using dj xn by auto
  have r3: "map (\<lambda>a. name (h4 ! a)) es4 =
       N @ [''.backup''] @ map (\<lambda>n. ''.backup/'' @ n) (changed_names h3 ?old es3) @ [''.backup/.rmlist'']"
    using r(3) by (simp add: N_def)
  have d4: "distinct (map (\<lambda>a. name (h4 ! a)) es4)"
    unfolding r3 using c2 dN out by auto
  have m4: "''.backup/.magisk'' \<notin> set (map (\<lambda>a. name (h4 ! a)) es4)"
    unfolding r3 using c2 out by auto
  from r(1,2) d4 m4 show ?thesis by blast
qed

lemma magisk_config_no_device:
  "magisk_config (MagiskRootPatch_init 26100 None seed) sha = Inl AttributeError"
  by (simp add: magisk_config_def MagiskRootPatch_init_def VER_PREINIT_DEVICE_eq in_range_def
      encode_ascii_def)

lemma magisk_config_device:
  "\<not> list_ex (\<lambda>c. 128 \<le> (of_char c :: nat)) dev \<Longrightarrow>
   magisk_config (MagiskRootPatch_init 26100 (Some dev) None) sha =
     Inr (''KEEPVERITY=true'' @ NL @ ''KEEPFORCEENCRYPT=true'' @ NL
          @ ''PATCHVBMETAFLAG=false'' @ NL @ ''RECOVERYMODE=false'' @ NL
          @ ''PREINITDEVICE='' @ dev @ NL
          @ ''SHA1='' @ sha @ NL @ ''RANDOMSEED=0xfedcba9876543210'' @ NL)"
  by (simp add: magisk_config_def MagiskRootPatch_init_def VER_PREINIT_DEVICE_eq
      VER_RANDOM_SEED_eq in_range_def encode_ascii_def hex_default_seed)

lemma xz_files_present:
  "z ''lib/armeabi-v7a/libmagisk32.so'' \<noteq> None \<Longrightarrow> z ''lib/arm64-v8a/libmagisk64.so'' \<noteq> None \<Longrightarrow>
   \<forall>f \<in> set (xz_files z). z (fst f) \<noteq> None"
  by (simp add: xz_files_def)

lemma patch_fails_without_config:
  "magisk_config self sha = Inl e \<Longrightarrow> MagiskRootPatch_patch self sha xz z img \<noteq> Inr r"
  by (simp add: MagiskRootPatch_patch_def Let_def split: sum.split)

lemma loaded_ramdisk:
  assumes rd: "length (ramdisks img) \<le> 1"
    and ld: "\<forall>r \<in> set (ramdisks img). \<not> isl r \<and> P (fst (projr r))"
    and p0: "P []"
  shows "\<exists>L fmt. (if ramdisks img \<noteq> [] then load_ramdisk (ramdisks img ! 0) else Inr ([], LZ4_LEGACY))
                   = Inr (L, fmt)
           \<and> P L \<and> (ramdisks img = [] \<longrightarrow> L = [])
           \<and> fmt = (if ramdisks img \<noteq> [] then snd (projr (ramdisks img ! 0)) else LZ4_LEGACY)"
proof (cases "ramdisks img")
  case Nil
  with p0 show ?thesis by simp
next
  case (Cons r rs)
  with ld have r: "\<not> isl r" "P (fst (projr r))" by simp_all
  from r(1) obtain L fmt where e: "r = Inr (L, fmt)" by (cases r) auto
  with Cons r(2) show ?thesis by (simp add: load_ramdisk_def)
qed

lemma patch_succeeds:
  assumes rd: "length (ramdisks img) \<le> 1"
    and ld: "\<forall>r \<in> set (ramdisks img). \<not> isl r \<and>
               (distinct (map name (fst (projr r)))
                \<and> set (map name (fst (projr r))) \<inter>
                    {''overlay.d'', ''overlay.d/sbin'', ''overlay.d/sbin/magisk32.xz'',
                     ''overlay.d/sbin/magisk64.xz'', ''overlay.d/sbin/stub.xz'', ''.backup'',
                     ''.backup/init'', ''.backup/.rmlist'', ''.backup/.magisk''} = {})"
    and zi: "z ''lib/arm64-v8a/libmagiskinit.so'' \<noteq> None"
    and z32: "z ''lib/armeabi-v7a/libmagisk32.so'' \<noteq> None"
    and z64: "z ''lib/arm64-v8a/libmagisk64.so'' \<noteq> None"
    and cfg: "magisk_config self sha = Inr config"
  shows "\<exists>es. MagiskRootPatch_patch self sha xz z img =
                Inr (img\<lparr> ramdisks :=
                  [Inr (es, if ramdisks img \<noteq> [] then snd (projr (ramdisks img ! 0)) else LZ4_LEGACY)] \<rparr>)
           \<and> distinct (map name es) \<and> es \<noteq> []
           \<and> last es = new_file ''.backup/.magisk'' 0 config"
proof -
  let ?MN = "{''overlay.d'', ''overlay.d/sbin'', ''overlay.d/sbin/magisk32.xz'',
              ''overlay.d/sbin/magisk64.xz'', ''overlay.d/sbin/stub.xz'', ''.backup'',
              ''.backup/init'', ''.backup/.rmlist'', ''.backup/.magisk''}"
  from loaded_ramdisk [where P = "\<lambda>L. distinct (map name L) \<and> set (map name L) \<inter> ?MN = {}", OF rd ld]
  obtain L fmt where ld0: "(if ramdisks img \<noteq> [] then load_ramdisk (ramdisks img ! 0) else Inr ([], LZ4_LEGACY))
                   = Inr (L, fmt)"
    and dl: "distinct (map name L)" and dm: "set (map name L) \<inter> ?MN = {}"
    and l0: "ramdisks img = [] \<longrightarrow> L = []"
    and fmt: "fmt = (if ramdisks img \<noteq> [] then snd (projr (ramdisks img ! 0)) else LZ4_LEGACY)"
    by auto
  define s1 where "s1 = append_new (append_new (L, [0..<length L]) (new_directory ''overlay.d'' 488))
                   (new_directory ''overlay.d/sbin'' 488)"
  define s2 where "s2 = (if ramdisks img \<noteq> []
                  then (fst s1, filter (\<lambda>a. name (fst s1 ! a) \<noteq> ''init'') (snd s1))
                  else s1)"
  let ?keep = "filter (\<lambda>a. name (L ! a) \<noteq> ''init'') [0..<length L]"
  have s1v: "s1 = (L @ [new_directory ''overlay.d'' 488, new_directory ''overlay.d/sbin'' 488],
                   [0..<length L] @ [length L, Suc (length L)])"
    by (simp add: s1_def append_new_def)
  have fk: "filter (\<lambda>a. name ((L @ [new_directory ''overlay.d'' 488, new_directory ''overlay.d/sbin'' 488]) ! a)
                        \<noteq> ''init'') [0..<length L] = ?keep"
    by (rule filter_cong [OF refl]) (simp add: nth_append)
  have s2v: "s2 = (L @ [new_directory ''overlay.d'' 488, new_directory ''overlay.d/sbin'' 488],
                   ?keep @ [length L, Suc (length L)])"
  proof (cases "ramdisks img = []")
    case True
    with l0 show ?thesis by (simp add: s2_def s1v)
  next
    case False
    then have "s2 = (fst s1, filter (\<lambda>a. name (fst s1 ! a) \<noteq> ''init'') (snd s1))"
      by (simp add: s2_def)
    also have "\<dots> = (L @ [new_directory ''overlay.d'' 488, new_directory ''overlay.d/sbin'' 488],
                   ?keep @ [length L, Suc (length L)])"
      unfolding s1v fst_conv snd_conv filter_append fk
      by (simp add: nth_append new_directory_def)
    finally show ?thesis .
  qed
  from zi obtain init_data where id: "zip_open z ''lib/arm64-v8a/libmagiskinit.so'' = Inr init_data"
    by (auto simp: zip_open_def)
  from add_xz_files_result [OF xz_files_present [OF z32 z64], of xz "append_new s2 (new_file ''init'' 488 init_data)"]
  obtain X where X: "add_xz_files xz z (xz_files z) (append_new s2 (new_file ''init'' 488 init_data)) =
       Inr (fst (append_new s2 (new_file ''init'' 488 init_data)) @ X,
            snd (append_new s2 (new_file ''init'' 488 init_data))
            @ [length (fst (append_new s2 (new_file ''init'' 488 init_data)))
               ..<length (fst (append_new s2 (new_file ''init'' 488 init_data))) + length X])"
    and nX: "map name X = map (\<lambda>f. ''overlay.d/sbin/'' @ snd f) (xz_files z)"
    by blast
  define h3 where "h3 = L @ [new_directory ''overlay.d'' 488, new_directory ''overlay.d/sbin'' 488,
                      new_file ''init'' 488 init_data] @ X"
  define es3 where "es3 = ?keep @ [length L, length L + 1, length L + 2]
                 @ [length L + 3..<length L + 3 + length X]"
  have f2: "fst (append_new s2 (new_file ''init'' 488 init_data))
              = L @ [new_directory ''overlay.d'' 488, new_directory ''overlay.d/sbin'' 488,
                     new_file ''init'' 488 init_data]"
    by (simp add: s2v append_new_def)
  have sn: "snd (append_new s2 (new_file ''init'' 488 init_data))
              = ?keep @ [length L, length L + 1, length L + 2]"
    by (simp add: s2v append_new_def)
  have len: "length (L @ [new_directory ''overlay.d'' 488, new_directory ''overlay.d/sbin'' 488,
                     new_file ''init'' 488 init_data]) = length L + 3"
    by simp
  have s3: "add_xz_files xz z (xz_files z) (append_new s2 (new_file ''init'' 488 init_data)) = Inr (h3, es3)"
    unfolding X f2 sn len h3_def es3_def append_assoc ..
  have nX2: "map name X = [''overlay.d/sbin/magisk32.xz'', ''overlay.d/sbin/magisk64.xz'']
               @ (if z ''assets/stub.apk'' \<noteq> None then [''overlay.d/sbin/stub.xz''] else [])"
    unfolding nX by (simp add: xz_files_def)
  define Ns where "Ns = set (map name L)"
  have dmN: "Ns \<inter> ?MN = {}" using dm by (simp only: Ns_def)
  have "Ns \<inter> {''overlay.d'', ''overlay.d/sbin'', ''.backup'', ''.backup/init'',
               ''.backup/.rmlist'', ''.backup/.magisk''} = {}"
    using dmN by auto
  then have dj: "set (map name L) \<inter> {''overlay.d'', ''overlay.d/sbin'', ''.backup'', ''.backup/init'',
               ''.backup/.rmlist'', ''.backup/.magisk''} = {}"
    by (simp only: Ns_def)
  have "Ns \<inter> set (map name X) = {}"
    unfolding nX2 using dmN by auto
  then have djx: "set (map name L) \<inter> set (map name X) = {}"
    by (simp only: Ns_def)
  have dx: "distinct (map name X)" unfolding nX2 by simp
  have xn: "set (map name X) \<inter> {''overlay.d'', ''overlay.d/sbin'', ''init'', ''.backup'', ''.backup/init'',
               ''.backup/.rmlist'', ''.backup/.magisk''} = {}"
    unfolding nX2 by simp
  from magisk_entries [OF dl dj djx dx xn, of init_data] obtain h4 es4 where
    s4: "apply_magisk_backup h3 [0..<length L] es3 = Inr (h4, es4)"
    and b4: "\<forall>a \<in> set es4. a < length h4"
    and d4: "distinct (map (\<lambda>a. name (h4 ! a)) es4)"
    and m4: "''.backup/.magisk'' \<notin> set (map (\<lambda>a. name (h4 ! a)) es4)"
    unfolding h3_def es3_def by blast
  define es where "es = map (\<lambda>a. h4 ! a) es4 @ [new_file ''.backup/.magisk'' 0 config]"
  have e5: "deref (fst (append_new (h4, es4) (new_file ''.backup/.magisk'' 0 config)))
              (snd (append_new (h4, es4) (new_file ''.backup/.magisk'' 0 config))) = es"
  proof -
    have "map (\<lambda>a. (h4 @ [new_file ''.backup/.magisk'' 0 config]) ! a) es4 = map (\<lambda>a. h4 ! a) es4"
      by (rule map_cong [OF refl]) (use b4 in \<open>simp add: nth_append\<close>)
    then show ?thesis by (simp add: append_new_def deref_def es_def)
  qed
  have nes: "map name es = map (\<lambda>a. name (h4 ! a)) es4 @ [''.backup/.magisk'']"
    by (simp add: es_def new_file_def comp_def)
  have des: "distinct (map name es)" unfolding nes using d4 m4 by simp
  then have sv: "save_ramdisk es fmt = Inr (Inr (es, fmt))" by (simp add: save_ramdisk_def)
  have upd: "(if ramdisks img \<noteq> [] then (ramdisks img)[0 := Inr (es, fmt)]
              else ramdisks img @ [Inr (es, fmt)]) = [Inr (es, fmt)]"
    using rd by (cases "ramdisks img") simp_all
  have r: "MagiskRootPatch_patch self sha xz z img = Inr (img\<lparr> ramdisks := [Inr (es, fmt)] \<rparr>)"
    using rd
    unfolding MagiskRootPatch_patch_def ld0 sum.case Let_def fst_conv snd_conv
      s1_def [symmetric] s2_def [symmetric]
    by (simp add: id s3 s4 cfg e5 sv upd)
  have "es \<noteq> []" "last es = new_file ''.backup/.magisk'' 0 config" by (simp_all add: es_def)
  with r des show ?thesis unfolding fmt by blast
qed

lemma patch_config_error:
  assumes rd: "length (ramdisks img) \<le> 1"
    and ld: "\<forall>r \<in> set (ramdisks img). \<not> isl r"
    and zi: "z ''lib/arm64-v8a/libmagiskinit.so'' \<noteq> None"
    and z32: "z ''lib/armeabi-v7a/libmagisk32.so'' \<noteq> None"
    and z64: "z ''lib/arm64-v8a/libmagisk64.so'' \<noteq> None"
    and cfg: "magisk_config self sha = Inl e"
  shows "MagiskRootPatch_patch self sha xz z img = Inl e"
proof -
  from loaded_ramdisk [where P = "\<lambda>L. True", OF rd] ld
  obtain L fmt where ld0: "(if ramdisks img \<noteq> [] then load_ramdisk (ramdisks img ! 0) else Inr ([], LZ4_LEGACY))
                   = Inr (L, fmt)"
    by auto
  define s1 where "s1 = append_new (append_new (L, [0..<length L]) (new_directory ''overlay.d'' 488))
                   (new_directory ''overlay.d/sbin'' 488)"
  define s2 where "s2 = (if ramdisks img \<noteq> []
                  then (fst s1, filter (\<lambda>a. name (fst s1 ! a) \<noteq> ''init'') (snd s1))
                  else s1)"
  from zi obtain init_data where id: "zip_open z ''lib/arm64-v8a/libmagiskinit.so'' = Inr init_data"
    by (auto simp: zip_open_def)
  have l2: "length (fst s2) = length L + 2"
    by (simp add: s2_def s1_def append_new_def)
  from add_xz_files_result [OF xz_files_present [OF z32 z64], of xz "append_new s2 (new_file ''init'' 488 init_data)"]
  obtain s3 where s3: "add_xz_files xz z (xz_files z) (append_new s2 (new_file ''init'' 488 init_data)) = Inr s3"
    and l3: "length (fst (append_new s2 (new_file ''init'' 488 init_data))) \<le> length (fst s3)"
    by fastforce
  from l2 l3 have "length L \<le> length (fst s3)" by (simp add: append_new_def)
  then have wf: "\<forall>a \<in> set [0..<length L]. a < length (fst s3)" by simp
  from apply_magisk_backup_result [OF wf, of "snd s3"] obtain s4 where
    s4: "apply_magisk_backup (fst s3) [0..<length L] (snd s3) = Inr s4"
    by blast
  show ?thesis
    using rd
    unfolding MagiskRootPatch_patch_def ld0 sum.case Let_def fst_conv snd_conv
      s1_def [symmetric] s2_def [symmetric]
    by (simp add: id s3 s4 cfg)
qed

text \<open>
  C1, as the code has it. Version 26100 lies in \<^verbatim>\<open>VER_PREINIT_DEVICE\<close> and in
  \<^verbatim>\<open>VER_RANDOM_SEED\<close>. With no preinit device configured \<^verbatim>\<open>validate\<close> raises and
  \<^verbatim>\<open>_patch\<close> never returns an image. With a preinit device \<open>dev\<close> and the default random
  seed \<^verbatim>\<open>validate\<close> passes. Let, moreover, the image have at most one ramdisk, which loads,
  with entries of distinct names, none of them a name that the patch adds
  (\<^verbatim>\<open>overlay.d\<close>, \<^verbatim>\<open>overlay.d/sbin\<close>, \<^verbatim>\<open>overlay.d/sbin/magisk32.xz\<close>,
  \<^verbatim>\<open>overlay.d/sbin/magisk64.xz\<close>, \<^verbatim>\<open>overlay.d/sbin/stub.xz\<close>, \<^verbatim>\<open>.backup\<close>,
  \<^verbatim>\<open>.backup/init\<close>, \<^verbatim>\<open>.backup/.rmlist\<close>, \<^verbatim>\<open>.backup/.magisk\<close>); let the bundle hold the
  three libraries \<^verbatim>\<open>libmagiskinit.so\<close>, \<^verbatim>\<open>libmagisk32.so\<close> and \<^verbatim>\<open>libmagisk64.so\<close>; and
  let \<open>dev\<close> be ASCII. Then \<^verbatim>\<open>_patch\<close> returns the image with exactly one ramdisk, in the
  format of the original one (\<^verbatim>\<open>LZ4_LEGACY\<close> if there was none), whose entries have
  distinct names and end with the entry \<^verbatim>\<open>.backup/.magisk\<close> of content
  \<^verbatim>\<open>KEEPVERITY=true\nKEEPFORCEENCRYPT=true\nPATCHVBMETAFLAG=false\nRECOVERYMODE=false\n\<close>
  \<^verbatim>\<open>PREINITDEVICE=<dev>\nSHA1=<hexdigest>\nRANDOMSEED=0xfedcba9876543210\n\<close>.
\<close>

theorem magisk_26100_config:
  "validate (MagiskRootPatch_init 26100 None seed) = Inl (PreinitDeviceRequired 26100)
   \<and> MagiskRootPatch_patch (MagiskRootPatch_init 26100 None seed) sha xz z img \<noteq> Inr r
   \<and> validate (MagiskRootPatch_init 26100 (Some dev) None) = Inr ()
   \<and> (length (ramdisks img) \<le> 1
        \<and> (\<forall>r \<in> set (ramdisks img). \<not> isl r \<and>
               (distinct (map name (fst (projr r)))
                \<and> set (map name (fst (projr r))) \<inter>
                    {''overlay.d'', ''overlay.d/sbin'', ''overlay.d/sbin/magisk32.xz'',
                     ''overlay.d/sbin/magisk64.xz'', ''overlay.d/sbin/stub.xz'', ''.backup'',
                     ''.backup/init'', ''.backup/.rmlist'', ''.backup/.magisk''} = {}))
        \<and> z ''lib/arm64-v8a/libmagiskinit.so'' \<noteq> None
        \<and> z ''lib/armeabi-v7a/libmagisk32.so'' \<noteq> None
        \<and> z ''lib/arm64-v8a/libmagisk64.so'' \<noteq> None
        \<and> \<not> list_ex (\<lambda>c. 128 \<le> (of_char c :: nat)) dev
      \<longrightarrow> (\<exists>es. MagiskRootPatch_patch (MagiskRootPatch_init 26100 (Some dev) None) sha xz z img =
                  Inr (img\<lparr> ramdisks :=
                    [Inr (es, if ramdisks img \<noteq> [] then snd (projr (ramdisks img ! 0)) else LZ4_LEGACY)] \<rparr>)
             \<and> distinct (map name es) \<and> es \<noteq> []
             \<and> last es =
                 new_file ''.backup/.magisk'' 0
                   (''KEEPVERITY=true'' @ NL @ ''KEEPFORCEENCRYPT=true'' @ NL
                    @ ''PATCHVBMETAFLAG=false'' @ NL @ ''RECOVERYMODE=false'' @ NL
                    @ ''PREINITDEVICE='' @ dev @ NL
                    @ ''SHA1='' @ sha @ NL @ ''RANDOMSEED=0xfedcba9876543210'' @ NL)))"
proof (intro conjI impI)
  show "validate (MagiskRootPatch_init 26100 None seed) = Inl (PreinitDeviceRequired 26100)"
    by (simp add: validate_def MagiskRootPatch_init_def version_supported_iff
        VER_PREINIT_DEVICE_eq) (simp add: in_range_def)
  show "MagiskRootPatch_patch (MagiskRootPatch_init 26100 None seed) sha xz z img \<noteq> Inr r"
    by (rule patch_fails_without_config [OF magisk_config_no_device])
  show "validate (MagiskRootPatch_init 26100 (Some dev) None) = Inr ()"
    by (simp add: validate_def MagiskRootPatch_init_def version_supported_iff)
next
  assume a: "length (ramdisks img) \<le> 1
        \<and> (\<forall>r \<in> set (ramdisks img). \<not> isl r \<and>
               (distinct (map name (fst (projr r)))
                \<and> set (map name (fst (projr r))) \<inter>
                    {''overlay.d'', ''overlay.d/sbin'', ''overlay.d/sbin/magisk32.xz'',
                     ''overlay.d/sbin/magisk64.xz'', ''overlay.d/sbin/stub.xz'', ''.backup'',
                     ''.backup/init'', ''.backup/.rmlist'', ''.backup/.magisk''} = {}))
        \<and> z ''lib/arm64-v8a/libmagiskinit.so'' \<noteq> None
        \<and> z ''lib/armeabi-v7a/libmagisk32.so'' \<noteq> None
        \<and> z ''lib/arm64-v8a/libmagisk64.so'' \<noteq> None
        \<and> \<not> list_ex (\<lambda>c. 128 \<le> (of_char c :: nat)) dev"
  then have c: "magisk_config (MagiskRootPatch_init 26100 (Some dev) None) sha =
     Inr (''KEEPVERITY=true'' @ NL @ ''KEEPFORCEENCRYPT=true'' @ NL
          @ ''PATCHVBMETAFLAG=false'' @ NL @ ''RECOVERYMODE=false'' @ NL
          @ ''PREINITDEVICE='' @ dev @ NL
          @ ''SHA1='' @ sha @ NL @ ''RANDOMSEED=0xfedcba9876543210'' @ NL)"
    by (simp add: magisk_config_device)
  from a have rd: "length (ramdisks img) \<le> 1" by (rule conjunct1)
  from a have ld: "\<forall>r \<in> set (ramdisks img). \<not> isl r \<and>
               (distinct (map name (fst (projr r)))
                \<and> set (map name (fst (projr r))) \<inter>
                    {''overlay.d'', ''overlay.d/sbin'', ''overlay.d/sbin/magisk32.xz'',
                     ''overlay.d/sbin/magisk64.xz'', ''overlay.d/sbin/stub.xz'', ''.backup'',
                     ''.backup/init'', ''.backup/.rmlist'', ''.backup/.magisk''} = {})"
    by (rule conjunct2 [THEN conjunct1])
  from a have zs: "z ''lib/arm64-v8a/libmagiskinit.so'' \<noteq> None"
    "z ''lib/armeabi-v7a/libmagisk32.so'' \<noteq> None" "z ''lib/arm64-v8a/libmagisk64.so'' \<noteq> None"
    by blast+
  show "\<exists>es. MagiskRootPatch_patch (MagiskRootPatch_init 26100 (Some dev) None) sha xz z img =
                  Inr (img\<lparr> ramdisks :=
                    [Inr (es, if ramdisks img \<noteq> [] then snd (projr (ramdisks img ! 0)) else LZ4_LEGACY)] \<rparr>)
             \<and> distinct (map name es) \<and> es \<noteq> []
             \<and> last es =
                 new_file ''.backup/.magisk'' 0
                   (''KEEPVERITY=true'' @ NL @ ''KEEPFORCEENCRYPT=true'' @ NL
                    @ ''PATCHVBMETAFLAG=false'' @ NL @ ''RECOVERYMODE=false'' @ NL
                    @ ''PREINITDEVICE='' @ dev @ NL
                    @ ''SHA1='' @ sha @ NL @ ''RANDOMSEED=0xfedcba9876543210'' @ NL)"
    by (rule patch_succeeds [OF rd ld zs c])
qed

theorem magisk_26100_config_witness:
  "\<exists>es. MagiskRootPatch_patch (MagiskRootPatch_init 26100 (Some ''sda7'') None)
             ''da39a3ee5e6b4b0d3255bfef95601890afd80709'' (\<lambda>d. d)
             (map_of [(''lib/arm64-v8a/libmagiskinit.so'', ''i''),
                      (''lib/armeabi-v7a/libmagisk32.so'', ''a''),
                      (''lib/arm64-v8a/libmagisk64.so'', ''b'')])
             \<lparr> header = [], kernel = None, second = None, recovery_dtbo = None, dtb = None,
               bootconfig = None,
               ramdisks = [Inr ([new_file ''init'' 488 ''x'', new_file ''fstab'' 420 ''y''], ''GZIP'')] \<rparr>
           = Inr (\<lparr> header = [], kernel = None, second = None, recovery_dtbo = None, dtb = None,
               bootconfig = None,
               ramdisks = [Inr ([new_file ''init'' 488 ''x'', new_file ''fstab'' 420 ''y''], ''GZIP'')] \<rparr>
               \<lparr> ramdisks := [Inr (es,
                   if ramdisks \<lparr> header = [], kernel = None, second = None, recovery_dtbo = None, dtb = None,
                        bootconfig = None,
                        ramdisks = [Inr ([new_file ''init'' 488 ''x'', new_file ''fstab'' 420 ''y''], ''GZIP'')] \<rparr> \<noteq> []
                   then snd (projr (ramdisks \<lparr> header = [], kernel = None, second = None, recovery_dtbo = None,
                        dtb = None, bootconfig = None,
                        ramdisks = [Inr ([new_file ''init'' 488 ''x'', new_file ''fstab'' 420 ''y''], ''GZIP'')] \<rparr> ! 0))
                   else LZ4_LEGACY)] \<rparr>)
          \<and> distinct (map name es) \<and> es \<noteq> []
          \<and> last es =
              new_file ''.backup/.magisk'' 0
               (''KEEPVERITY=true'' @ NL @ ''KEEPFORCEENCRYPT=true'' @ NL
                @ ''PATCHVBMETAFLAG=false'' @ NL @ ''RECOVERYMODE=false'' @ NL
                @ ''PREINITDEVICE='' @ ''sda7'' @ NL
                @ ''SHA1='' @ ''da39a3ee5e6b4b0d3255bfef95601890afd80709'' @ NL
                @ ''RANDOMSEED=0xfedcba9876543210'' @ NL)"
  by (rule magisk_26100_config [where seed = None
      and sha = "''da39a3ee5e6b4b0d3255bfef95601890afd80709''" and xz = "\<lambda>d. d"
      and z = "map_of [(''lib/arm64-v8a/libmagiskinit.so'', ''i''),
               (''lib/armeabi-v7a/libmagisk32.so'', ''a''),
               (''lib/arm64-v8a/libmagisk64.so'', ''b'')]"
      and img = "\<lparr> header = [], kernel = None, second = None, recovery_dtbo = None, dtb = None,
               bootconfig = None,
               ramdisks = [Inr ([new_file ''init'' 488 ''x'', new_file ''fstab'' 420 ''y''], ''GZIP'')] \<rparr>"
      and dev = "''sda7''",
      THEN conjunct2, THEN conjunct2, THEN conjunct2, THEN mp]) (simp add: new_file_def)

theorem magisk_26100_no_device_counterexample:
  "validate (MagiskRootPatch_init 26100 None None) = Inl (PreinitDeviceRequired 26100)
   \<and> MagiskRootPatch_patch (MagiskRootPatch_init 26100 None None)
        ''da39a3ee5e6b4b0d3255bfef95601890afd80709'' (\<lambda>d. d)
        (map_of [(''lib/arm64-v8a/libmagiskinit.so'', ''i''),
                 (''lib/armeabi-v7a/libmagisk32.so'', ''a''),
                 (''lib/arm64-v8a/libmagisk64.so'', ''b'')])
        \<lparr> header = [], kernel = None, second = None, recovery_dtbo = None, dtb = None,
          bootconfig = None, ramdisks = [] \<rparr> = Inl AttributeError"
proof
  show "validate (MagiskRootPatch_init 26100 None None) = Inl (PreinitDeviceRequired 26100)"
    by (simp add: validate_def MagiskRootPatch_init_def version_supported_iff
        VER_PREINIT_DEVICE_eq) (simp add: in_range_def)
  show "MagiskRootPatch_patch (MagiskRootPatch_init 26100 None None)
        ''da39a3ee5e6b4b0d3255bfef95601890afd80709'' (\<lambda>d. d)
        (map_of [(''lib/arm64-v8a/libmagiskinit.so'', ''i''),
                 (''lib/armeabi-v7a/libmagisk32.so'', ''a''),
                 (''lib/arm64-v8a/libmagisk64.so'', ''b'')])
        \<lparr> header = [], kernel = None, second = None, recovery_dtbo = None, dtb = None,
          bootconfig = None, ramdisks = [] \<rparr> = Inl AttributeError"
    by (rule patch_config_error [OF _ _ _ _ _ magisk_config_no_device]) simp_all
qed

text \<open>
  A ramdisk that already has an entry \<^verbatim>\<open>overlay.d\<close>: the entry is kept, a second
  \<^verbatim>\<open>overlay.d\<close> is appended, and saving fails on the collision.
\<close>

lemma patch_name_collision:
  "MagiskRootPatch_patch (MagiskRootPatch_init 26100 (Some ''sda7'') None) sha (\<lambda>d. d)
     (map_of [(''lib/arm64-v8a/libmagiskinit.so'', ''i''),
              (''lib/armeabi-v7a/libmagisk32.so'', ''a''),
              (''lib/arm64-v8a/libmagisk64.so'', ''b'')])
     \<lparr> header = [], kernel = None, second = None, recovery_dtbo = None, dtb = None,
       bootconfig = None, ramdisks = [Inr ([new_directory ''overlay.d'' 488], ''GZIP'')] \<rparr>
   = Inl InvalidRamdisk"
  by (simp add: MagiskRootPatch_patch_def load_ramdisk_def append_new_def xz_files_def zip_open_def
      apply_magisk_backup_def by_name_def deleted_names_def changed_names_def dict_keys_def
      magisk_config_device save_ramdisk_def deref_def new_file_def new_directory_def Let_def)

subsection \<open>Re-signing a boot image\<close>

lemma split_descriptors_no_hash:
  "hash_descriptors ds = [] \<Longrightarrow>
   split_descriptors ds hash nd = Inr (hash, nd @ other_descriptors ds)"
  by (induction ds hash nd rule: split_descriptors.induct) simp_all

lemma split_descriptors_one_hash:
  "hash_descriptors ds = [h] \<Longrightarrow>
   split_descriptors ds None nd = Inr (Some h, nd @ other_descriptors ds)"
proof (induction ds arbitrary: nd)
  case Nil
  then show ?case by simp
next
  case (Cons d ds)
  show ?case
  proof (cases d)
    case (AvbHashDescriptor pn ha sa)
    with Cons.prems have "h = (pn, ha, sa)" "hash_descriptors ds = []" by simp_all
    with AvbHashDescriptor show ?thesis by (simp add: split_descriptors_no_hash)
  next
    case (OtherDescriptor x)
    with Cons.prems have "hash_descriptors ds = [h]" by simp
    from Cons.IH [OF this, of "nd @ [OtherDescriptor x]"] OtherDescriptor show ?thesis by simp
  qed
qed

lemma split_descriptors_second_hash:
  "hash_descriptors ds \<noteq> [] \<Longrightarrow> split_descriptors ds (Some h) nd = Inl MultipleHashDescriptors"
proof (induction ds arbitrary: nd)
  case Nil
  then show ?case by simp
next
  case (Cons d ds)
  then show ?case by (cases d) simp_all
qed

lemma split_descriptors_many_hashes:
  "2 \<le> length (hash_descriptors ds) \<Longrightarrow> split_descriptors ds None nd = Inl MultipleHashDescriptors"
proof (induction ds arbitrary: nd)
  case Nil
  then show ?case by simp
next
  case (Cons d ds)
  show ?case
  proof (cases d)
    case (AvbHashDescriptor pn ha sa)
    with Cons.prems have "hash_descriptors ds \<noteq> []" by auto
    with AvbHashDescriptor show ?thesis by (simp add: split_descriptors_second_hash)
  next
    case (OtherDescriptor x)
    with Cons.prems have "2 \<le> length (hash_descriptors ds)" by simp
    from Cons.IH [OF this, of "nd @ [OtherDescriptor x]"] OtherDescriptor show ?thesis by simp
  qed
qed

lemma patch_and_sign_Inr:
  assumes r: "patch_and_sign L E parsed input key ps = Inr (f, args)"
  shows "\<exists>pn ha sa nd name0.
           split_descriptors (descriptors parsed) None [] = Inr (Some (pn, ha, sa), nd)
         \<and> L (algorithm_type (vbmeta parsed)) = Inr name0
         \<and> apply_patches ps (E input) = Inr f
         \<and> key_path args = key
         \<and> algorithm_name args = (if name0 = ''SHA256_RSA2048'' then ''SHA256_RSA4096'' else name0)
         \<and> partition_name args = pn \<and> hash_algorithm args = ha \<and> salt args = hex_of_bytes sa
         \<and> kernel_cmdlines args = nd"
proof (cases "split_descriptors (descriptors parsed) None []")
  case (Inl e)
  with r show ?thesis by (simp add: patch_and_sign_def)
next
  case (Inr x)
  obtain h nd where x: "x = (h, nd)" by (cases x)
  show ?thesis
  proof (cases h)
    case None
    with r Inr x show ?thesis by (simp add: patch_and_sign_def)
  next
    case (Some t)
    obtain pn ha sa where t: "t = (pn, ha, sa)" by (cases t)
    show ?thesis
    proof (cases "L (algorithm_type (vbmeta parsed))")
      case (Inl e)
      with r Inr x Some t show ?thesis by (simp add: patch_and_sign_def)
    next
      case l: (Inr name0)
      show ?thesis
      proof (cases "apply_patches ps (E input)")
        case (Inl e)
        with r Inr x Some t l show ?thesis by (simp add: patch_and_sign_def)
      next
        case a: (Inr f')
        from r Inr x Some t l a have "f = f'" and ar: "args =
                         \<lparr> partition_size = image_size parsed,
                           partition_name = pn,
                           hash_algorithm = ha,
                           salt = hex_of_bytes sa,
                           algorithm_name = (if name0 = ''SHA256_RSA2048'' then ''SHA256_RSA4096'' else name0),
                           key_path = key,
                           arg_rollback_index = rollback_index (vbmeta parsed),
                           arg_flags = flags (vbmeta parsed),
                           arg_rollback_index_location = rollback_index_location (vbmeta parsed),
                           kernel_cmdlines = nd,
                           arg_release_string = release_string (vbmeta parsed) \<rparr>"
          by (simp_all add: patch_and_sign_def)
        have "key_path args = key"
          "algorithm_name args = (if name0 = ''SHA256_RSA2048'' then ''SHA256_RSA4096'' else name0)"
          "partition_name args = pn" "hash_algorithm args = ha" "salt args = hex_of_bytes sa"
          "kernel_cmdlines args = nd"
          unfolding ar by simp_all
        with Inr x Some t l a \<open>f = f'\<close> show ?thesis by blast
      qed
    qed
  qed
qed

lemma patch_and_sign_returns:
  assumes hd: "hash_descriptors (descriptors parsed) = [(pn, ha, sa)]"
    and lk: "L (algorithm_type (vbmeta parsed)) = Inr name0"
    and ap: "apply_patches ps (E input) = Inr f"
  shows "patch_and_sign L E parsed input key ps =
           Inr (f, \<lparr> partition_size = image_size parsed,
                     partition_name = pn,
                     hash_algorithm = ha,
                     salt = hex_of_bytes sa,
                     algorithm_name = (if name0 = ''SHA256_RSA2048'' then ''SHA256_RSA4096'' else name0),
                     key_path = key,
                     arg_rollback_index = rollback_index (vbmeta parsed),
                     arg_flags = flags (vbmeta parsed),
                     arg_rollback_index_location = rollback_index_location (vbmeta parsed),
                     kernel_cmdlines = other_descriptors (descriptors parsed),
                     arg_release_string = release_string (vbmeta parsed) \<rparr>)"
  using split_descriptors_one_hash [OF hd, of "[]"] lk ap
  by (simp add: patch_and_sign_def)


lemma patch_and_sign_algorithm:
  assumes "patch_and_sign L E parsed input key ps = Inr (f, args)"
  shows "\<exists>name0. L (algorithm_type (vbmeta parsed)) = Inr name0
           \<and> algorithm_name args = (if name0 = ''SHA256_RSA2048'' then ''SHA256_RSA4096'' else name0)"
  using patch_and_sign_Inr [OF assms] by blast

lemma patch_boot_dropped:
  "only_if_previously_signed \<Longrightarrow> public_key_size (vbmeta parsed) = 0 \<Longrightarrow>
   patch_boot L E parsed input key0 only_if_previously_signed ps = patch_and_sign L E parsed input None ps"
  by (simp add: patch_boot_def truthy_def)


lemma patch_boot_match:
  "\<not> (only_if_previously_signed \<and> public_key_size (vbmeta parsed) = 0) \<Longrightarrow>
   (public_key_size (vbmeta parsed) \<noteq> 0) = truthy key0 \<Longrightarrow>
   patch_boot L E parsed input key0 only_if_previously_signed ps = patch_and_sign L E parsed input key0 ps"
  by (auto simp: patch_boot_def Let_def)

lemma patch_boot_cases:
  "patch_boot L E parsed input key0 oips ps =
     patch_and_sign L E parsed input (if public_key_size (vbmeta parsed) = 0 \<and> oips then None else key0) ps
   \<or> (\<exists>a b. patch_boot L E parsed input key0 oips ps = Inl (KeyPresenceMismatch a b))"
  by (simp add: patch_boot_def Let_def)


lemma patch_boot_returns:
  assumes km: "(public_key_size (vbmeta parsed) \<noteq> 0)
                 = truthy (if public_key_size (vbmeta parsed) = 0 \<and> oips then None else key)"
    and hd: "hash_descriptors (descriptors parsed) = [(pn, ha, sa)]"
    and lk: "L (algorithm_type (vbmeta parsed)) = Inr alg"
    and ap: "apply_patches ps (E input) = Inr f"
  shows "patch_boot L E parsed input key oips ps =
           Inr (f, \<lparr> partition_size = image_size parsed,
                     partition_name = pn,
                     hash_algorithm = ha,
                     salt = hex_of_bytes sa,
                     algorithm_name = (if alg = ''SHA256_RSA2048'' then ''SHA256_RSA4096'' else alg),
                     key_path = (if public_key_size (vbmeta parsed) = 0 \<and> oips then None else key),
                     arg_rollback_index = rollback_index (vbmeta parsed),
                     arg_flags = flags (vbmeta parsed),
                     arg_rollback_index_location = rollback_index_location (vbmeta parsed),
                     kernel_cmdlines = other_descriptors (descriptors parsed),
                     arg_release_string = release_string (vbmeta parsed) \<rparr>)"
proof -
  let ?k = "if public_key_size (vbmeta parsed) = 0 \<and> oips then None else key"
  have "patch_boot L E parsed input key oips ps = patch_and_sign L E parsed input ?k ps"
  proof (cases "oips \<and> public_key_size (vbmeta parsed) = 0")
    case True
    then have "?k = None" by simp
    with patch_boot_dropped [of oips parsed L E input key ps] True show ?thesis by simp
  next
    case False
    then have k: "?k = key" by auto
    from km have "(public_key_size (vbmeta parsed) \<noteq> 0) = truthy key" by (simp only: k)
    from patch_boot_match [OF False this, of L E input ps] k show ?thesis by simp
  qed
  also have "\<dots> = Inr (f, \<lparr> partition_size = image_size parsed,
                     partition_name = pn,
                     hash_algorithm = ha,
                     salt = hex_of_bytes sa,
                     algorithm_name = (if alg = ''SHA256_RSA2048'' then ''SHA256_RSA4096'' else alg),
                     key_path = ?k,
                     arg_rollback_index = rollback_index (vbmeta parsed),
                     arg_flags = flags (vbmeta parsed),
                     arg_rollback_index_location = rollback_index_location (vbmeta parsed),
                     kernel_cmdlines = other_descriptors (descriptors parsed),
                     arg_release_string = release_string (vbmeta parsed) \<rparr>)"
    using hd lk ap by (rule patch_and_sign_returns)
  finally show ?thesis .
qed


lemma patch_boot_algorithm:
  assumes "patch_boot L E parsed input key oips ps = Inr (f, args)"
  shows "\<exists>alg. L (algorithm_type (vbmeta parsed)) = Inr alg
           \<and> algorithm_name args = (if alg = ''SHA256_RSA2048'' then ''SHA256_RSA4096'' else alg)"
proof -
  from patch_boot_cases [of L E parsed input key oips ps] assms
  have "patch_and_sign L E parsed input
          (if public_key_size (vbmeta parsed) = 0 \<and> oips then None else key) ps = Inr (f, args)"
    by auto
  then show ?thesis by (rule patch_and_sign_algorithm)
qed




text \<open>
  C7. Whenever \<^verbatim>\<open>patch_boot\<close> reaches \<^verbatim>\<open>add_hash_footer\<close>, the algorithm name it passes is
  \<^verbatim>\<open>SHA256_RSA4096\<close> if the original algorithm name (that of \<^verbatim>\<open>header.algorithm_type\<close>) is
  \<^verbatim>\<open>SHA256_RSA2048\<close>, and the original name otherwise. \<^verbatim>\<open>patch_boot\<close> does reach that call
  when the key presence check passes, the image has exactly one hash descriptor, the
  algorithm type is known and the patches do not raise.
\<close>

theorem patch_boot_algorithm_lift:
  "(\<forall>f args. patch_boot L E parsed input key oips ps = Inr (f, args) \<longrightarrow>
       (\<exists>alg. L (algorithm_type (vbmeta parsed)) = Inr alg
          \<and> algorithm_name args = (if alg = ''SHA256_RSA2048'' then ''SHA256_RSA4096'' else alg)))
   \<and> ((public_key_size (vbmeta parsed) \<noteq> 0)
          = truthy (if public_key_size (vbmeta parsed) = 0 \<and> oips then None else key)
        \<and> hash_descriptors (descriptors parsed) = [h]
        \<and> L (algorithm_type (vbmeta parsed)) = Inr alg
        \<and> apply_patches ps (E input) = Inr f \<longrightarrow>
      (\<exists>args. patch_boot L E parsed input key oips ps = Inr (f, args)
         \<and> algorithm_name args = (if alg = ''SHA256_RSA2048'' then ''SHA256_RSA4096'' else alg)))"
proof (intro conjI impI allI)
  fix f args assume r: "patch_boot L E parsed input key oips ps = Inr (f, args)"
  show "\<exists>alg. L (algorithm_type (vbmeta parsed)) = Inr alg
          \<and> algorithm_name args = (if alg = ''SHA256_RSA2048'' then ''SHA256_RSA4096'' else alg)"
    by (rule patch_boot_algorithm [OF r])
next
  assume a: "(public_key_size (vbmeta parsed) \<noteq> 0)
          = truthy (if public_key_size (vbmeta parsed) = 0 \<and> oips then None else key)
        \<and> hash_descriptors (descriptors parsed) = [h]
        \<and> L (algorithm_type (vbmeta parsed)) = Inr alg
        \<and> apply_patches ps (E input) = Inr f"
  obtain pn ha sa where h: "h = (pn, ha, sa)" by (cases h)
  from a h have km: "(public_key_size (vbmeta parsed) \<noteq> 0)
          = truthy (if public_key_size (vbmeta parsed) = 0 \<and> oips then None else key)"
    and hd: "hash_descriptors (descriptors parsed) = [(pn, ha, sa)]"
    and lk: "L (algorithm_type (vbmeta parsed)) = Inr alg"
    and ap: "apply_patches ps (E input) = Inr f"
    by simp_all
  show "\<exists>args. patch_boot L E parsed input key oips ps = Inr (f, args)
         \<and> algorithm_name args = (if alg = ''SHA256_RSA2048'' then ''SHA256_RSA4096'' else alg)"
  proof -
    have "patch_boot L E parsed input key oips ps = Inr (f, \<lparr> partition_size = image_size parsed,
                     partition_name = pn,
                     hash_algorithm = ha,
                     salt = hex_of_bytes sa,
                     algorithm_name = (if alg = ''SHA256_RSA2048'' then ''SHA256_RSA4096'' else alg),
                     key_path = (if public_key_size (vbmeta parsed) = 0 \<and> oips then None else key),
                     arg_rollback_index = rollback_index (vbmeta parsed),
                     arg_flags = flags (vbmeta parsed),
                     arg_rollback_index_location = rollback_index_location (vbmeta parsed),
                     kernel_cmdlines = other_descriptors (descriptors parsed),
                     arg_release_string = release_string (vbmeta parsed) \<rparr>)"
      using km hd lk ap by (rule patch_boot_returns)
    then show ?thesis by simp
  qed
qed

theorem patch_boot_algorithm_lift_witness:
  "(\<exists>args. patch_boot (\<lambda>t. if t = 1 then Inr ''SHA256_RSA2048'' else
                            if t = 2 then Inr ''SHA256_RSA4096'' else
                            if t = 5 then Inr ''SHA512_RSA4096'' else Inl AvbError) (\<lambda>f. f)
       \<lparr> vbmeta = \<lparr> public_key_size = 520, algorithm_type = 1, rollback_index = 0, flags = 0,
                    rollback_index_location = 0, release_string = ''avbtool 1.2.0'' \<rparr>,
         descriptors = [OtherDescriptor ''cmdline'', AvbHashDescriptor ''init_boot'' ''sha256'' ''salt''],
         image_size = 4096 \<rparr>
       ''image'' (Some ''avb.key'') True [] = Inr (''image'', args)
     \<and> algorithm_name args = ''SHA256_RSA4096'')
   \<and> (\<exists>args. patch_boot (\<lambda>t. if t = 1 then Inr ''SHA256_RSA2048'' else
                            if t = 2 then Inr ''SHA256_RSA4096'' else
                            if t = 5 then Inr ''SHA512_RSA4096'' else Inl AvbError) (\<lambda>f. f)
       \<lparr> vbmeta = \<lparr> public_key_size = 1032, algorithm_type = 5, rollback_index = 0, flags = 0,
                    rollback_index_location = 0, release_string = ''avbtool 1.2.0'' \<rparr>,
         descriptors = [OtherDescriptor ''cmdline'', AvbHashDescriptor ''boot'' ''sha256'' ''salt''],
         image_size = 4096 \<rparr>
       ''image'' (Some ''avb.key'') True [] = Inr (''image'', args)
     \<and> algorithm_name args = ''SHA512_RSA4096'')"
  using patch_boot_algorithm_lift [where L = "\<lambda>t. if t = 1 then Inr ''SHA256_RSA2048'' else
                            if t = 2 then Inr ''SHA256_RSA4096'' else
                            if t = 5 then Inr ''SHA512_RSA4096'' else Inl AvbError"
      and E = "\<lambda>f. f" and input = "''image''" and key = "Some ''avb.key''" and oips = True and ps = "[]"
      and h = "(''init_boot'', ''sha256'', ''salt'')" and alg = "''SHA256_RSA2048''" and f = "''image''"
      and parsed = "\<lparr> vbmeta = \<lparr> public_key_size = 520, algorithm_type = 1, rollback_index = 0, flags = 0,
                    rollback_index_location = 0, release_string = ''avbtool 1.2.0'' \<rparr>,
         descriptors = [OtherDescriptor ''cmdline'', AvbHashDescriptor ''init_boot'' ''sha256'' ''salt''],
         image_size = 4096 \<rparr>", THEN conjunct2]
    patch_boot_algorithm_lift [where L = "\<lambda>t. if t = 1 then Inr ''SHA256_RSA2048'' else
                            if t = 2 then Inr ''SHA256_RSA4096'' else
                            if t = 5 then Inr ''SHA512_RSA4096'' else Inl AvbError"
      and E = "\<lambda>f. f" and input = "''image''" and key = "Some ''avb.key''" and oips = True and ps = "[]"
      and h = "(''boot'', ''sha256'', ''salt'')" and alg = "''SHA512_RSA4096''" and f = "''image''"
      and parsed = "\<lparr> vbmeta = \<lparr> public_key_size = 1032, algorithm_type = 5, rollback_index = 0, flags = 0,
                    rollback_index_location = 0, release_string = ''avbtool 1.2.0'' \<rparr>,
         descriptors = [OtherDescriptor ''cmdline'', AvbHashDescriptor ''boot'' ''sha256'' ''salt''],
         image_size = 4096 \<rparr>", THEN conjunct2]
  by (simp add: truthy_def)

subsection \<open>OTA certificate replacement\<close>










text \<open>
  Outside the data model: a ramdisk with two entries at the path. Only the first one is
  assigned to, and saving fails on the collision.
\<close>

lemma otacerts_duplicate_names:
  "OtaCertPatch_patch zip_bytes cert
     \<lparr> header = [], kernel = None, second = None, recovery_dtbo = None, dtb = None,
       bootconfig = None,
       ramdisks = [Inr ([new_file ''system/etc/security/otacerts.zip'' 420 ''a'',
                         new_file ''system/etc/security/otacerts.zip'' 420 ''b''], ''GZIP'')] \<rparr>
   = Inl InvalidRamdisk"
  by (simp add: OtaCertPatch_patch_def load_ramdisk_def save_ramdisk_def OTACERTS_PATH_def
      new_file_def)

subsection \<open>OTA zip re-emission\<close>

lemma required_distinct: "distinct REQUIRED"
  by (simp add: REQUIRED_def PATH_METADATA_def PATH_METADATA_PB_def PATH_OTACERT_def
      PATH_PAYLOAD_def PATH_PROPERTIES_def)

lemma payload_not_properties: "PATH_PAYLOAD \<noteq> PATH_PROPERTIES"
  using required_distinct by (simp add: REQUIRED_def)

lemma not_metadata_paths:
  "not_metadata PATH_OTACERT" "not_metadata PATH_PAYLOAD" "not_metadata PATH_PROPERTIES"
  "\<not> not_metadata PATH_METADATA" "\<not> not_metadata PATH_METADATA_PB"
  using required_distinct by (auto simp: REQUIRED_def not_metadata_def)

lemma drop_Cons_nth:
  assumes "drop k es = x # rest"
  shows "k < length es \<and> es ! k = x \<and> drop (Suc k) es = rest"
proof -
  have k: "k < length es" using assms by (cases "k < length es") simp_all
  from Cons_nth_drop_Suc [OF k] assms show ?thesis using k by simp
qed

lemma scan_loop_found:
  assumes "drop k es = rest"
    and "PATH_PAYLOAD \<notin> set m \<longrightarrow>
           0 \<le> ip \<and> nat ip < length es \<and> filename (fst (es ! nat ip)) = PATH_PAYLOAD"
    and "PATH_PROPERTIES \<notin> set m \<longrightarrow>
           0 \<le> iq \<and> nat iq < length es \<and> filename (fst (es ! nat iq)) = PATH_PROPERTIES"
    and "scan_loop (enumerate k rest) (m, ip, iq) = (m', ip', iq')"
  shows "(PATH_PAYLOAD \<notin> set m' \<longrightarrow>
           0 \<le> ip' \<and> nat ip' < length es \<and> filename (fst (es ! nat ip')) = PATH_PAYLOAD)
       \<and> (PATH_PROPERTIES \<notin> set m' \<longrightarrow>
           0 \<le> iq' \<and> nat iq' < length es \<and> filename (fst (es ! nat iq')) = PATH_PROPERTIES)"
  using assms
proof (induction rest arbitrary: k m ip iq)
  case Nil
  then show ?case by simp
next
  case (Cons x rest)
  obtain info data where x: "x = (info, data)" by (cases x)
  from drop_Cons_nth [OF Cons.prems(1)] have k: "k < length es" "es ! k = x" "drop (Suc k) es = rest"
    by simp_all
  define m1 where "m1 = (if filename info \<in> set m then removeAll (filename info) m else m)"
  define ip1 where "ip1 = (if filename info = PATH_PAYLOAD then int k else ip)"
  define iq1 where "iq1 = (if filename info = PATH_PAYLOAD then iq
                           else if filename info = PATH_PROPERTIES then int k else iq)"
  have sm: "set m1 = set m - {filename info}" by (auto simp: m1_def)
  have p1: "PATH_PAYLOAD \<notin> set m1 \<longrightarrow>
           0 \<le> ip1 \<and> nat ip1 < length es \<and> filename (fst (es ! nat ip1)) = PATH_PAYLOAD"
  proof (cases "filename info = PATH_PAYLOAD")
    case True
    with k x show ?thesis by (simp add: ip1_def)
  next
    case False
    with sm have "(PATH_PAYLOAD \<notin> set m1) = (PATH_PAYLOAD \<notin> set m)" by auto
    with Cons.prems(2) False show ?thesis by (simp add: ip1_def)
  qed
  have q1: "PATH_PROPERTIES \<notin> set m1 \<longrightarrow>
           0 \<le> iq1 \<and> nat iq1 < length es \<and> filename (fst (es ! nat iq1)) = PATH_PROPERTIES"
  proof (cases "filename info = PATH_PROPERTIES")
    case True
    with k x payload_not_properties show ?thesis by (simp add: iq1_def)
  next
    case False
    with sm have "(PATH_PROPERTIES \<notin> set m1) = (PATH_PROPERTIES \<notin> set m)" by auto
    with Cons.prems(3) False show ?thesis by (simp add: iq1_def)
  qed
  have step: "scan_loop (enumerate k (x # rest)) (m, ip, iq) =
        (if m1 = [] \<and> ip1 \<ge> 0 \<and> iq1 \<ge> 0 then (m1, ip1, iq1)
         else scan_loop (enumerate (Suc k) rest) (m1, ip1, iq1))"
    by (simp add: x m1_def ip1_def iq1_def Let_def)
  show ?case
  proof (cases "m1 = [] \<and> ip1 \<ge> 0 \<and> iq1 \<ge> 0")
    case True
    with step Cons.prems(4) have "m' = m1" "ip' = ip1" "iq' = iq1" by simp_all
    with p1 q1 show ?thesis by simp
  next
    case False
    with step Cons.prems(4) have "scan_loop (enumerate (Suc k) rest) (m1, ip1, iq1) = (m', ip', iq')"
      by simp
    from Cons.IH [OF k(3) p1 q1 this] show ?thesis .
  qed
qed

lemma scan_loop_missing:
  "scan_loop (enumerate k rest) (m, ip, iq) = (m', ip', iq') \<Longrightarrow>
   set m' = set m - (\<lambda>e. filename (fst e)) ` set rest"
proof (induction rest arbitrary: k m ip iq)
  case Nil
  then show ?case by simp
next
  case (Cons x rest)
  obtain info data where x: "x = (info, data)" by (cases x)
  define m1 where "m1 = (if filename info \<in> set m then removeAll (filename info) m else m)"
  define ip1 where "ip1 = (if filename info = PATH_PAYLOAD then int k else ip)"
  define iq1 where "iq1 = (if filename info = PATH_PAYLOAD then iq
                           else if filename info = PATH_PROPERTIES then int k else iq)"
  have sm: "set m1 = set m - {filename info}" by (auto simp: m1_def)
  have step: "scan_loop (enumerate k (x # rest)) (m, ip, iq) =
        (if m1 = [] \<and> ip1 \<ge> 0 \<and> iq1 \<ge> 0 then (m1, ip1, iq1)
         else scan_loop (enumerate (Suc k) rest) (m1, ip1, iq1))"
    by (simp add: x m1_def ip1_def iq1_def Let_def)
  show ?case
  proof (cases "m1 = [] \<and> ip1 \<ge> 0 \<and> iq1 \<ge> 0")
    case True
    with step Cons.prems have "m' = []" "m1 = []" by simp_all
    with sm x show ?thesis by auto
  next
    case False
    with step Cons.prems have "scan_loop (enumerate (Suc k) rest) (m1, ip1, iq1) = (m', ip', iq')"
      by simp
    from Cons.IH [OF this] sm x show ?thesis by auto
  qed
qed

lemma paths_neq:
  "PATH_METADATA \<noteq> PATH_METADATA_PB" "PATH_METADATA \<noteq> PATH_OTACERT" "PATH_METADATA \<noteq> PATH_PAYLOAD"
  "PATH_METADATA \<noteq> PATH_PROPERTIES" "PATH_METADATA_PB \<noteq> PATH_OTACERT" "PATH_METADATA_PB \<noteq> PATH_PAYLOAD"
  "PATH_METADATA_PB \<noteq> PATH_PROPERTIES" "PATH_OTACERT \<noteq> PATH_PAYLOAD" "PATH_OTACERT \<noteq> PATH_PROPERTIES"
  "PATH_PAYLOAD \<noteq> PATH_PROPERTIES"
  "PATH_METADATA_PB \<noteq> PATH_METADATA" "PATH_OTACERT \<noteq> PATH_METADATA" "PATH_PAYLOAD \<noteq> PATH_METADATA"
  "PATH_PROPERTIES \<noteq> PATH_METADATA" "PATH_OTACERT \<noteq> PATH_METADATA_PB" "PATH_PAYLOAD \<noteq> PATH_METADATA_PB"
  "PATH_PROPERTIES \<noteq> PATH_METADATA_PB" "PATH_PAYLOAD \<noteq> PATH_OTACERT" "PATH_PROPERTIES \<noteq> PATH_OTACERT"
  "PATH_PROPERTIES \<noteq> PATH_PAYLOAD"
  using required_distinct by (auto simp: REQUIRED_def)

lemma emit_loop_names:
  "emit_loop P cert es s = Inr s' \<Longrightarrow>
   map (\<lambda>w. filename (fst w)) (written s') =
     map (\<lambda>w. filename (fst w)) (written s) @ filter not_metadata (map (\<lambda>e. filename (fst e)) es)"
proof (induction es arbitrary: s)
  case Nil
  then show ?case by simp
next
  case (Cons x es)
  obtain info data where x: "x = (info, data)" by (cases x)
  from Cons.prems x obtain new_extra where st: "strip_bad_extra_fields (extra info) = Inr new_extra"
    by (cases "strip_bad_extra_fields (extra info)") simp_all
  let ?out = "info\<lparr> extra := new_extra \<rparr>"
  consider (meta) "filename info = PATH_METADATA" | (pb) "filename info = PATH_METADATA_PB"
    | (cert) "filename info = PATH_OTACERT" | (payload) "filename info = PATH_PAYLOAD"
    | (props) "filename info = PATH_PROPERTIES"
    | (other) "filename info \<notin> {PATH_METADATA, PATH_METADATA_PB, PATH_OTACERT, PATH_PAYLOAD, PATH_PROPERTIES}"
    by auto
  then show ?case
  proof cases
    case meta
    with Cons.prems x st
    have "emit_loop P cert es (s\<lparr> metadata_info := Some ?out \<rparr>) = Inr s'" by simp
    from Cons.IH [OF this] meta x show ?thesis by (simp add: not_metadata_paths)
  next
    case pb
    with Cons.prems x st
    have "emit_loop P cert es (s\<lparr> metadata_pb_info := Some ?out, metadata_pb_raw := Some data \<rparr>) = Inr s'"
      by (simp add: paths_neq)
    from Cons.IH [OF this] pb x show ?thesis by (simp add: not_metadata_paths)
  next
    case cert
    with Cons.prems x st
    have "emit_loop P cert es (s\<lparr> written := written s @ [(?out, cert)] \<rparr>) = Inr s'"
      by (simp add: paths_neq)
    from Cons.IH [OF this] cert x show ?thesis by (simp add: not_metadata_paths)
  next
    case payload
    with Cons.prems x st have stored: "compress_type info = ZIP_STORED"
      by (cases "compress_type info = ZIP_STORED") (simp_all add: paths_neq)
    with Cons.prems x st payload obtain np pr where pp: "P data = Inr (np, pr)"
      by (cases "P data") (auto simp: paths_neq)
    with Cons.prems x st payload stored
    have "emit_loop P cert es (s\<lparr> properties := Some pr, written := written s @ [(?out, np)] \<rparr>) = Inr s'"
      by (simp add: paths_neq)
    from Cons.IH [OF this] payload x show ?thesis by (simp add: not_metadata_paths)
  next
    case props
    with Cons.prems x st have stored: "compress_type info = ZIP_STORED"
      by (cases "compress_type info = ZIP_STORED") (simp_all add: paths_neq)
    with Cons.prems x st props obtain p where pp: "properties s = Some p"
      by (cases "properties s") (auto simp: paths_neq)
    with Cons.prems x st props stored
    have "emit_loop P cert es (s\<lparr> written := written s @ [(?out, p)] \<rparr>) = Inr s'"
      by (simp add: paths_neq)
    from Cons.IH [OF this] props x show ?thesis by (simp add: not_metadata_paths)
  next
    case other
    with Cons.prems x st
    have "emit_loop P cert es (s\<lparr> written := written s @ [(?out, data)] \<rparr>) = Inr s'" by simp
    from Cons.IH [OF this] other x show ?thesis by (simp add: not_metadata_def)
  qed
qed

lemma strip_bad_extra_fields_empty: "strip_bad_extra_fields [] = Inr []"
  by (simp add: strip_bad_extra_fields_def strip_loop.simps)

lemma takeWhile_before:
  assumes "\<not> Q x"
  shows "set (takeWhile Q (ys @ x # r)) \<subseteq> set ys"
proof (induction ys)
  case Nil
  from assms show ?case by simp
next
  case (Cons y ys)
  show ?case
  proof (cases "Q y")
    case True
    with Cons.IH show ?thesis by (simp add: subset_insertI2)
  next
    case False
    then show ?thesis by simp
  qed
qed

lemma split_two:
  assumes "p < q" and "q < length xs"
  shows "\<exists>a b c. xs = a @ xs ! p # b @ xs ! q # c"
proof -
  from assms have p: "p < length xs" by simp
  let ?ys = "drop (Suc p) xs"
  from assms have q': "q - Suc p < length ?ys" by simp
  have e: "?ys ! (q - Suc p) = xs ! q" using assms by simp
  have 1: "xs = take p xs @ xs ! p # ?ys" using id_take_nth_drop [OF p] .
  have 2: "?ys = take (q - Suc p) ?ys @ xs ! q # drop (Suc (q - Suc p)) ?ys"
    using id_take_nth_drop [OF q'] e by simp
  from 1 2 have "xs = take p xs @ xs ! p # take (q - Suc p) ?ys @ xs ! q # drop (Suc (q - Suc p)) ?ys"
    by simp
  then show ?thesis by blast
qed

lemma emit_loop_returns:
  assumes "\<forall>x \<in> set es. \<not> isl (strip_bad_extra_fields (extra (fst x)))
             \<and> (filename (fst x) = PATH_PAYLOAD \<longrightarrow>
                  compress_type (fst x) = ZIP_STORED \<and> \<not> isl (P (snd x)))
             \<and> (filename (fst x) = PATH_PROPERTIES \<longrightarrow> compress_type (fst x) = ZIP_STORED)"
    and "properties s \<noteq> None
         \<or> PATH_PROPERTIES \<notin> set (takeWhile (\<lambda>n. n \<noteq> PATH_PAYLOAD) (map (\<lambda>e. filename (fst e)) es))"
  shows "\<exists>s'. emit_loop P cert es s = Inr s'"
  using assms
proof (induction es arbitrary: s)
  case Nil
  show ?case by simp
next
  case (Cons x es)
  obtain info data where x: "x = (info, data)" by (cases x)
  from Cons.prems(1) x obtain new_extra where st: "strip_bad_extra_fields (extra info) = Inr new_extra"
    by (cases "strip_bad_extra_fields (extra info)") simp_all
  from Cons.prems(1) have ok: "\<forall>x \<in> set es. \<not> isl (strip_bad_extra_fields (extra (fst x)))
             \<and> (filename (fst x) = PATH_PAYLOAD \<longrightarrow>
                  compress_type (fst x) = ZIP_STORED \<and> \<not> isl (P (snd x)))
             \<and> (filename (fst x) = PATH_PROPERTIES \<longrightarrow> compress_type (fst x) = ZIP_STORED)"
    by simp
  let ?out = "info\<lparr> extra := new_extra \<rparr>"
  let ?tw = "\<lambda>es. set (takeWhile (\<lambda>n. n \<noteq> PATH_PAYLOAD) (map (\<lambda>e. filename (fst e)) es))"
  have keep: "\<And>s1. filename info \<noteq> PATH_PAYLOAD \<Longrightarrow> filename info \<noteq> PATH_PROPERTIES \<Longrightarrow>
                 properties s1 = properties s \<Longrightarrow>
                 properties s1 \<noteq> None \<or> PATH_PROPERTIES \<notin> ?tw es"
    using Cons.prems(2) x by auto
  consider (meta) "filename info = PATH_METADATA" | (pb) "filename info = PATH_METADATA_PB"
    | (cert) "filename info = PATH_OTACERT" | (payload) "filename info = PATH_PAYLOAD"
    | (props) "filename info = PATH_PROPERTIES"
    | (other) "filename info \<notin> {PATH_METADATA, PATH_METADATA_PB, PATH_OTACERT, PATH_PAYLOAD, PATH_PROPERTIES}"
    by auto
  then show ?case
  proof cases
    case meta
    have "properties (s\<lparr> metadata_info := Some ?out \<rparr>) \<noteq> None \<or> PATH_PROPERTIES \<notin> ?tw es"
      by (rule keep) (simp_all add: meta paths_neq)
    from Cons.IH [OF ok this] meta x st show ?thesis by simp
  next
    case pb
    have "properties (s\<lparr> metadata_pb_info := Some ?out, metadata_pb_raw := Some data \<rparr>) \<noteq> None
          \<or> PATH_PROPERTIES \<notin> ?tw es"
      by (rule keep) (simp_all add: pb paths_neq)
    from Cons.IH [OF ok this] pb x st show ?thesis by (simp add: paths_neq)
  next
    case cert
    have "properties (s\<lparr> written := written s @ [(?out, cert)] \<rparr>) \<noteq> None \<or> PATH_PROPERTIES \<notin> ?tw es"
      by (rule keep) (simp_all add: cert paths_neq)
    from Cons.IH [OF ok this] cert x st show ?thesis by (simp add: paths_neq)
  next
    case payload
    with Cons.prems(1) x have stored: "compress_type info = ZIP_STORED" and "\<not> isl (P data)"
      by simp_all
    then obtain np pr where pp: "P data = Inr (np, pr)" by (cases "P data") auto
    have "properties (s\<lparr> properties := Some pr, written := written s @ [(?out, np)] \<rparr>) \<noteq> None
          \<or> PATH_PROPERTIES \<notin> ?tw es"
      by simp
    from Cons.IH [OF ok this] payload x st stored pp show ?thesis by (simp add: paths_neq)
  next
    case props
    with Cons.prems(1) x have stored: "compress_type info = ZIP_STORED" by simp
    from Cons.prems(2) props x obtain p where p: "properties s = Some p"
      by (auto simp: paths_neq)
    then have "properties (s\<lparr> written := written s @ [(?out, p)] \<rparr>) \<noteq> None \<or> PATH_PROPERTIES \<notin> ?tw es"
      by simp
    from Cons.IH [OF ok this] props x st stored p show ?thesis by (simp add: paths_neq)
  next
    case other
    have "properties (s\<lparr> written := written s @ [(?out, data)] \<rparr>) \<noteq> None \<or> PATH_PROPERTIES \<notin> ?tw es"
      by (rule keep) (use other in simp_all)
    from Cons.IH [OF ok this] other x st show ?thesis by simp
  qed
qed

lemma patch_ota_zip_cases:
  "(\<exists>m. m \<noteq> [] \<and> set m = set REQUIRED - (\<lambda>e. filename (fst e)) ` set es
         \<and> patch_ota_zip P cert es = Inl (MissingFiles m))
   \<or> (set REQUIRED \<subseteq> (\<lambda>e. filename (fst e)) ` set es
       \<and> (\<exists>i j. i < length es \<and> j < length es
              \<and> filename (fst (es ! i)) = PATH_PAYLOAD \<and> filename (fst (es ! j)) = PATH_PROPERTIES
              \<and> patch_ota_zip P cert es =
                  emit_loop P cert (if j < i then es[i := es ! j, j := es ! i] else es)
                    \<lparr> properties = None, metadata_info = None, metadata_pb_info = None,
                      metadata_pb_raw = None, written = [] \<rparr>))"
proof -
  obtain m ip iq where sc: "scan_loop (enumerate 0 es) (REQUIRED, - 1, - 1) = (m, ip, iq)"
    by (cases "scan_loop (enumerate 0 es) (REQUIRED, - 1, - 1)") auto
  from scan_loop_missing [OF sc] have sm: "set m = set REQUIRED - (\<lambda>e. filename (fst e)) ` set es" .
  show ?thesis
  proof (cases "m = []")
    case False
    with sc have "patch_ota_zip P cert es = Inl (MissingFiles m)" by (simp add: patch_ota_zip_def)
    with False sm show ?thesis by blast
  next
    case True
    with sm have sub: "set REQUIRED \<subseteq> (\<lambda>e. filename (fst e)) ` set es" by auto
    have a: "PATH_PAYLOAD \<notin> set REQUIRED \<longrightarrow>
           0 \<le> (- 1 :: int) \<and> nat (- 1) < length es \<and> filename (fst (es ! nat (- 1))) = PATH_PAYLOAD"
      by (simp add: REQUIRED_def)
    have b: "PATH_PROPERTIES \<notin> set REQUIRED \<longrightarrow>
           0 \<le> (- 1 :: int) \<and> nat (- 1) < length es \<and> filename (fst (es ! nat (- 1))) = PATH_PROPERTIES"
      by (simp add: REQUIRED_def)
    have dr: "drop 0 es = es" by simp
    from scan_loop_found [OF dr a b sc] True
    have g: "0 \<le> ip" "nat ip < length es" "filename (fst (es ! nat ip)) = PATH_PAYLOAD"
      "0 \<le> iq" "nat iq < length es" "filename (fst (es ! nat iq)) = PATH_PROPERTIES"
      by simp_all
    from g(1,4) have lt: "(iq < ip) = (nat iq < nat ip)" by auto
    have "patch_ota_zip P cert es =
            emit_loop P cert (if nat iq < nat ip then es[nat ip := es ! nat iq, nat iq := es ! nat ip] else es)
              \<lparr> properties = None, metadata_info = None, metadata_pb_info = None,
                metadata_pb_raw = None, written = [] \<rparr>"
      using sc True lt by (simp add: patch_ota_zip_def)
    with g sub show ?thesis by blast
  qed
qed

lemma filter_two:
  "Q x \<Longrightarrow> Q y \<Longrightarrow> \<exists>a' b' c'. filter Q (a @ x # b @ y # c) = a' @ x # b' @ y # c'"
  by (rule exI [of _ "filter Q a"], rule exI [of _ "filter Q b"], rule exI [of _ "filter Q c"]) simp

lemma swapped_names:
  assumes d: "distinct ns" and i: "i < length ns" "ns ! i = PATH_PAYLOAD"
    and j: "j < length ns" "ns ! j = PATH_PROPERTIES"
  shows "\<exists>a b c. (if j < i then ns[i := PATH_PROPERTIES, j := PATH_PAYLOAD] else ns)
                    = a @ PATH_PAYLOAD # b @ PATH_PROPERTIES # c"
proof (cases "j < i")
  case True
  let ?xs = "ns[i := PATH_PROPERTIES, j := PATH_PAYLOAD]"
  from True i j have "?xs ! j = PATH_PAYLOAD" "?xs ! i = PATH_PROPERTIES" "i < length ?xs" by simp_all
  with split_two [OF True, of ?xs] True show ?thesis by simp
next
  case False
  have "i \<noteq> j" using i(2) j(2) payload_not_properties by auto
  with False have lt: "i < j" by simp
  from split_two [OF lt j(1)] i(2) j(2) False show ?thesis by simp
qed

end
